theory Spec2Isabelle
  imports Complex_Main "HOL-Library.AList"
begin

section \<open>Synthetic data generators of \<open>examples/utils/synthetic_data.py\<close>\<close>

text \<open>
  The module builds time series from closed formulas over the index range
  \<open>0, 1, ..., n_points - 1\<close> and adds random noise drawn from NumPy's global
  generator. The embedding follows the Python text function by function.

  \<^item> A Python \<open>int\<close> is an \<open>int\<close>; a finite Python \<open>float\<close> argument is a \<open>real\<close>.
    Overflow of IEEE doubles is not part of the model. Three features of doubles
    that the module's behaviour depends on are written out: non-finite results
    (\<open>np_float\<close>), the sign bit of a zero noise scale (\<open>product_signbit\<close>), and
    rounding (\<open>round_to_double\<close>) where it decides a result: in the counts
    \<open>int(n_points * 0.05)\<close> and \<open>int(n_points * anomaly_ratio)\<close>, which truncate a
    rounded product, and in the seasonal term, a sine at multiples of the double
    \<open>np.pi\<close>. The sums and products of the other formulas are exact.
  \<^item> Every exception that NumPy or \<open>datetime\<close> raises on the paths of the module
    is a value \<open>Inl e\<close> of the result type.
  \<^item> The global random generator is an explicit state that every drawing function
    takes and returns.
\<close>

subsection \<open>Exceptions\<close>

datatype py_error = ValueError | OverflowError

subsection \<open>The random generator\<close>

text \<open>
  The state of \<open>np.random\<close>: the standard normal variates it will produce next
  (\<open>gauss r 0\<close> is the next one) and the integers that drive its discrete choices.
  Drawing shifts the stream. No distribution is modelled: a theorem that holds for
  every state holds for every run.
\<close>

record rng =
  gauss :: "nat \<Rightarrow> real"
  pick :: "nat \<Rightarrow> nat"

definition skip_gauss :: "nat \<Rightarrow> rng \<Rightarrow> rng" where
  "skip_gauss k r = r\<lparr>gauss := (\<lambda>i. gauss r (i + k))\<rparr>"

definition skip_pick :: "nat \<Rightarrow> rng \<Rightarrow> rng" where
  "skip_pick k r = r\<lparr>pick := (\<lambda>i. pick r (i + k))\<rparr>"

text \<open>\<open>np.random.randn(n)\<close>: \<open>n\<close> standard normal variates; a negative size raises.\<close>

definition randn :: "int \<Rightarrow> rng \<Rightarrow> py_error + (real list \<times> rng)" where
  "randn n r =
     (if n < 0 then Inl ValueError
      else Inr (map (gauss r) [0..<nat n], skip_gauss (nat n) r))"

text \<open>
  \<open>np.random.normal(loc, scale, n)\<close>: NumPy first rejects a negative \<open>scale\<close>
  (\<open>ValueError: scale < 0\<close>, whatever the size), then a negative size, and returns
  \<open>loc + scale * z\<close> for each standard variate \<open>z\<close>.
\<close>

definition normal :: "real \<Rightarrow> real \<Rightarrow> int \<Rightarrow> rng \<Rightarrow> py_error + (real list \<times> rng)" where
  "normal loc scale n r =
     (if scale < 0 then Inl ValueError
      else case randn n r of
             Inl e \<Rightarrow> Inl e
           | Inr (zs, r') \<Rightarrow> Inr (map (\<lambda>z. loc + scale * z) zs, r'))"

text \<open>
  The noise of the series generators, \<open>np.random.normal(0, base_value * noise_level,
  n_points)\<close>. NumPy tests the sign bit of the scale, so it also rejects the negative
  zero that the float product gives when one factor is negative and the other is
  zero. The sign bit of a product is set exactly when one factor is negative (an
  argument is never itself the negative zero).
\<close>

definition product_signbit :: "real \<Rightarrow> real \<Rightarrow> bool" where
  "product_signbit a b = ((a < 0) \<noteq> (b < 0))"

definition noise_array :: "real \<Rightarrow> real \<Rightarrow> int \<Rightarrow> rng \<Rightarrow> py_error + (real list \<times> rng)" where
  "noise_array base_value noise_level n r =
     (if product_signbit base_value noise_level then Inl ValueError
      else normal 0 (base_value * noise_level) n r)"

text \<open>\<open>np.random.normal(loc, scale)\<close> without a size: one variate.\<close>

definition normal1 :: "real \<Rightarrow> real \<Rightarrow> rng \<Rightarrow> py_error + (real \<times> rng)" where
  "normal1 loc scale r =
     (if scale < 0 then Inl ValueError
      else Inr (loc + scale * gauss r 0, skip_gauss 1 r))"

subsection \<open>Array helpers\<close>

text \<open>\<open>np.arange(n)\<close> is \<open>0, ..., n - 1\<close>, and empty for \<open>n \<le> 0\<close>.\<close>

definition arange :: "int \<Rightarrow> nat list" where
  "arange n = [0..<nat n]"

text \<open>\<open>np.full(n, v)\<close> raises \<open>ValueError\<close> (negative dimensions) for \<open>n < 0\<close>.\<close>

definition np_full :: "int \<Rightarrow> 'a \<Rightarrow> py_error + 'a list" where
  "np_full n v = (if n < 0 then Inl ValueError else Inr (replicate (nat n) v))"

text \<open>
  Elementwise addition of two arrays. On every path of the module the two
  operands have the same length, or one of them is empty (the index range of a
  negative point count) and the other call has already raised.
\<close>

definition add_arrays :: "real list \<Rightarrow> real list \<Rightarrow> real list" where
  "add_arrays xs ys = map2 (+) xs ys"

subsection \<open>Trend series (\<open>generate_trend_series\<close>)\<close>

definition trend_curve :: "string \<Rightarrow> int \<Rightarrow> real \<Rightarrow> real \<Rightarrow> py_error + real list" where
  "trend_curve trend_type n_points base_value trend_strength =
     (let t = arange n_points in
      if trend_type = ''linear'' then
        Inr (map (\<lambda>i. base_value + trend_strength * real i) t)
      else if trend_type = ''exponential'' then
        Inr (map (\<lambda>i. base_value * (1 + 0.01 * trend_strength) ^ i) t)
      else if trend_type = ''logarithmic'' then
        Inr (map (\<lambda>i. base_value + trend_strength * 10 * ln (1 + real i)) t)
      else np_full n_points base_value)"

definition generate_trend_series ::
  "int \<Rightarrow> string \<Rightarrow> real \<Rightarrow> real \<Rightarrow> real \<Rightarrow> rng \<Rightarrow> py_error + (real list \<times> rng)" where
  "generate_trend_series n_points trend_type base_value trend_strength noise_level r =
     (case trend_curve trend_type n_points base_value trend_strength of
        Inl e \<Rightarrow> Inl e
      | Inr trend \<Rightarrow>
          (case noise_array base_value noise_level n_points r of
             Inl e \<Rightarrow> Inl e
           | Inr (noise, r') \<Rightarrow> Inr (add_arrays trend noise, r')))"

subsection \<open>Values that need not be finite\<close>

text \<open>
  NumPy divides by zero and takes the square root of a negative number without
  raising: the result is \<open>inf\<close> or \<open>nan\<close> (with a warning), and \<open>sin inf\<close> is
  \<open>nan\<close>. Where the module does either, a value is a finite real or \<open>NaN\<close>; once a
  value is not finite, every operation the module applies to it (\<open>sin\<close>, \<open>*\<close>,
  \<open>+\<close>) gives \<open>nan\<close>, so one token for all non-finite values is enough.
\<close>

datatype np_float = Fin real | NaN

fun fadd :: "np_float \<Rightarrow> np_float \<Rightarrow> np_float" where
  "fadd (Fin x) (Fin y) = Fin (x + y)"
| "fadd _ _ = NaN"

fun fmul :: "np_float \<Rightarrow> np_float \<Rightarrow> np_float" where
  "fmul (Fin x) (Fin y) = Fin (x * y)"
| "fmul _ _ = NaN"

fun fsin :: "np_float \<Rightarrow> np_float" where
  "fsin (Fin x) = Fin (sin x)"
| "fsin NaN = NaN"

definition true_divide :: "real \<Rightarrow> real \<Rightarrow> np_float" where
  "true_divide x y = (if y = 0 then NaN else Fin (x / y))"

definition np_sqrt :: "real \<Rightarrow> np_float" where
  "np_sqrt x = (if x < 0 then NaN else Fin (sqrt x))"

subsection \<open>Rounding to a double\<close>

text \<open>
  An operation of IEEE 754 binary64 returns the exact result rounded to the nearest
  number with a significand of 53 bits; of two nearest numbers it takes the one
  with the even significand. \<open>binade x\<close> is the exponent \<open>e\<close> with
  \<open>2^e \<le> |x| < 2^(e+1)\<close>; the doubles of that range are the multiples of
  \<open>ulp x = 2^(e - 52)\<close>. The exponent is not bounded here: overflow and subnormal
  numbers are outside the model.
\<close>

definition round_half_even :: "real \<Rightarrow> int" where
  "round_half_even x =
     (let f = \<lfloor>x\<rfloor>
      in if x - of_int f < 1/2 then f
         else if 1/2 < x - of_int f then f + 1
         else if even f then f else f + 1)"

definition binade :: "real \<Rightarrow> int" where
  "binade x = \<lfloor>log 2 \<bar>x\<bar>\<rfloor>"

definition ulp :: "real \<Rightarrow> real" where
  "ulp x = 2 powr (of_int (binade x) - 52)"

definition round_to_double :: "real \<Rightarrow> real" where
  "round_to_double x =
     (if x = 0 then 0
      else sgn x * (of_int (round_half_even (\<bar>x\<bar> / ulp x)) * ulp x))"

text \<open>
  The conversion of an \<open>int\<close> operand of a float operation, and of an integer
  array that meets a float.
\<close>

definition float_of_int :: "int \<Rightarrow> real" where
  "float_of_int k = round_to_double (of_int k)"

text \<open>\<open>np.pi\<close> is the double nearest to \<open>\<pi>\<close>.\<close>

definition np_pi :: real where
  "np_pi = round_to_double pi"

text \<open>
  Sum, product, quotient and sine of doubles, on values that need not be finite.
  \<open>np.sin\<close> is taken as the sine of the argument rounded once (the C library
  keeps its error below one unit in the last place).
\<close>

fun f64_add :: "np_float \<Rightarrow> np_float \<Rightarrow> np_float" where
  "f64_add (Fin x) (Fin y) = Fin (round_to_double (x + y))"
| "f64_add _ _ = NaN"

fun f64_mul :: "np_float \<Rightarrow> np_float \<Rightarrow> np_float" where
  "f64_mul (Fin x) (Fin y) = Fin (round_to_double (x * y))"
| "f64_mul _ _ = NaN"

fun f64_sin :: "np_float \<Rightarrow> np_float" where
  "f64_sin (Fin x) = Fin (round_to_double (sin x))"
| "f64_sin NaN = NaN"

definition f64_divide :: "real \<Rightarrow> real \<Rightarrow> np_float" where
  "f64_divide x y = (if y = 0 then NaN else Fin (round_to_double (x / y)))"

subsection \<open>Seasonal series (\<open>generate_seasonal_series\<close>, \<open>generate_trend_seasonal_series\<close>)\<close>

definition period_map :: "(string \<times> int) list" where
  "period_map =
     [(''hourly'', 24), (''daily'', 7), (''weekly'', 52), (''monthly'', 12), (''yearly'', 1)]"

text \<open>\<open>d.get(k, default)\<close> on a dictionary literal.\<close>

definition dict_get :: "('k \<times> 'v) list \<Rightarrow> 'k \<Rightarrow> 'v \<Rightarrow> 'v" where
  "dict_get d k dflt = (case map_of d k of None \<Rightarrow> dflt | Some v \<Rightarrow> v)"

text \<open>
  \<open>base_value * amplitude * np.sin(2 * np.pi * t / period)\<close> at index \<open>i\<close>, every
  operation rounded, in the order Python evaluates them:
  \<open>(base_value * amplitude) * np.sin(((2 * np.pi) * t) / period)\<close>.
\<close>

definition seasonal_term :: "real \<Rightarrow> real \<Rightarrow> int \<Rightarrow> nat \<Rightarrow> np_float" where
  "seasonal_term base_value amplitude period i =
     f64_mul (Fin (round_to_double (base_value * amplitude)))
       (f64_sin (f64_divide (round_to_double (round_to_double (2 * np_pi) * float_of_int (int i)))
                            (float_of_int period)))"

text \<open>
  The seasonal series is \<open>(base_value + seasonal) + noise\<close>, both sums rounded.
\<close>

definition generate_seasonal_series ::
  "int \<Rightarrow> real \<Rightarrow> string \<Rightarrow> real \<Rightarrow> real \<Rightarrow> rng \<Rightarrow> py_error + (np_float list \<times> rng)" where
  "generate_seasonal_series n_points base_value seasonality amplitude noise_level r =
     (let t = arange n_points;
          period = dict_get period_map seasonality 7;
          seasonal = map (seasonal_term base_value amplitude period) t
      in case noise_array base_value noise_level n_points r of
           Inl e \<Rightarrow> Inl e
         | Inr (noise, r') \<Rightarrow>
             Inr (map2 (\<lambda>s z. f64_add (f64_add (Fin base_value) s) (Fin z)) seasonal noise, r'))"

definition generate_trend_seasonal_series ::
  "int \<Rightarrow> real \<Rightarrow> real \<Rightarrow> int \<Rightarrow> real \<Rightarrow> real \<Rightarrow> rng \<Rightarrow> py_error + (np_float list \<times> rng)" where
  "generate_trend_seasonal_series n_points base_value trend_strength seasonal_period
       seasonal_amplitude noise_level r =
     (let t = arange n_points;
          trend = map (\<lambda>i. base_value + trend_strength * real i) t;
          seasonal = map (seasonal_term base_value seasonal_amplitude seasonal_period) t
      in case noise_array base_value noise_level n_points r of
           Inl e \<Rightarrow> Inl e
         | Inr (noise, r') \<Rightarrow>
             Inr (map2 (\<lambda>(tr, s) z. fadd (fadd (Fin tr) s) (Fin z)) (zip trend seasonal) noise, r'))"

subsection \<open>Correlated series (\<open>generate_multivariate_series\<close>)\<close>

text \<open>\<open>str(i)\<close> for a non-negative integer: its decimal digits.\<close>

definition digit_char :: "nat \<Rightarrow> char" where
  "digit_char d = ''0123456789'' ! d"

fun str_nat :: "nat \<Rightarrow> string" where
  "str_nat n = (if n < 10 then [digit_char n] else str_nat (n div 10) @ [digit_char (n mod 10)])"

declare str_nat.simps [simp del]

text \<open>
  \<open>np.linspace(start, stop, n)\<close>: \<open>n\<close> evenly spaced points from \<open>start\<close> to
  \<open>stop\<close>; the single point \<open>start\<close> for \<open>n = 1\<close>; \<open>ValueError\<close> for \<open>n < 0\<close>.
\<close>

definition linspace :: "real \<Rightarrow> real \<Rightarrow> int \<Rightarrow> py_error + real list" where
  "linspace start stop n =
     (if n < 0 then Inl ValueError
      else if n = 1 then Inr [start]
      else Inr (map (\<lambda>i. start + real i * ((stop - start) / real_of_int (n - 1))) [0..<nat n]))"

type_synonym 'v dict = "(string \<times> 'v) list"

text \<open>\<open>base_values[i] if i < len(base_values) else 100.0\<close>\<close>

definition series_base :: "real list \<Rightarrow> nat \<Rightarrow> real" where
  "series_base base_values i = (if i < length base_values then base_values ! i else 100)"

text \<open>
  The body of the loop over \<open>i\<close>, up to the list stored under \<open>series_i\<close>:
  the individual component is drawn, blended with the common one, and the scaled
  blend is added to the base and the ramp \<open>np.linspace(0, base * 0.3, n_points)\<close>.
\<close>

definition series_values ::
  "real \<Rightarrow> real \<Rightarrow> real \<Rightarrow> int \<Rightarrow> real list \<Rightarrow> real list \<Rightarrow> py_error + np_float list" where
  "series_values base correlation noise_level n_points common_component individual =
     (let combined =
            map2 (\<lambda>c z. fadd (Fin (correlation * c))
                             (fmul (np_sqrt (1 - correlation ^ 2)) (Fin z)))
                 common_component individual
      in case linspace 0 (base * 0.3) n_points of
           Inl e \<Rightarrow> Inl e
         | Inr trend \<Rightarrow>
             Inr (map2 (\<lambda>tr cb. fadd (Fin (base + tr))
                                    (fmul (fmul cb (Fin base)) (Fin noise_level)))
                       trend combined))"

definition make_series ::
  "real list \<Rightarrow> real \<Rightarrow> real \<Rightarrow> int \<Rightarrow> real list \<Rightarrow> nat \<Rightarrow> rng
     \<Rightarrow> py_error + (np_float list \<times> rng)" where
  "make_series base_values correlation noise_level n_points common_component i r =
     (let base = series_base base_values i in
      case randn n_points r of
        Inl e \<Rightarrow> Inl e
      | Inr (individual, r') \<Rightarrow>
          (case series_values base correlation noise_level n_points common_component individual of
             Inl e \<Rightarrow> Inl e
           | Inr vals \<Rightarrow> Inr (vals, r')))"

text \<open>The key \<open>f"series_{i}"\<close>.\<close>

definition series_name :: "nat \<Rightarrow> string" where
  "series_name i = ''series_'' @ str_nat i"

fun series_loop ::
  "(nat \<Rightarrow> rng \<Rightarrow> py_error + (np_float list \<times> rng)) \<Rightarrow> nat list
     \<Rightarrow> np_float list dict \<Rightarrow> rng \<Rightarrow> py_error + (np_float list dict \<times> rng)" where
  "series_loop body [] series_dict r = Inr (series_dict, r)"
| "series_loop body (i # rest) series_dict r =
     (case body i r of
        Inl e \<Rightarrow> Inl e
      | Inr (vals, r') \<Rightarrow>
          series_loop body rest (AList.update (series_name i) vals series_dict) r')"

definition generate_multivariate_series ::
  "int \<Rightarrow> int \<Rightarrow> real list option \<Rightarrow> real \<Rightarrow> real \<Rightarrow> rng
     \<Rightarrow> py_error + (np_float list dict \<times> rng)" where
  "generate_multivariate_series n_series n_points base_values_arg correlation noise_level r =
     (let base_values =
            (case base_values_arg of
               None \<Rightarrow> map (\<lambda>i. 100 + real i * 50) [0..<nat n_series]
             | Some bs \<Rightarrow> bs)
      in case randn n_points r of
           Inl e \<Rightarrow> Inl e
         | Inr (common_component, r') \<Rightarrow>
             series_loop (make_series base_values correlation noise_level n_points common_component)
               [0..<nat n_series] [] r')"

subsection \<open>Choosing at random\<close>

text \<open>
  \<open>np.random.choice(a, k, replace=False)\<close> returns \<open>k\<close> distinct members of the
  population in a random order. It raises \<open>ValueError\<close> when the population is
  empty and a sample is asked for, when the sample is larger than the population,
  and for a negative size. The members are taken one after the other at the
  positions the generator supplies, each removed from the pool once taken; every
  ordered sample without repetition arises from some generator state.
\<close>

fun sample_distinct :: "nat \<Rightarrow> 'a list \<Rightarrow> rng \<Rightarrow> 'a list \<times> rng" where
  "sample_distinct 0 pool r = ([], r)"
| "sample_distinct (Suc k) pool r =
     (if pool = [] then ([], r)
      else let j = pick r 0 mod length pool;
               rest = sample_distinct k (take j pool @ drop (Suc j) pool) (skip_pick 1 r)
           in (pool ! j # fst rest, snd rest))"

definition choice :: "'a list \<Rightarrow> int \<Rightarrow> rng \<Rightarrow> py_error + ('a list \<times> rng)" where
  "choice pool k r =
     (if pool = [] \<and> k \<noteq> 0 then Inl ValueError
      else if int (length pool) < k then Inl ValueError
      else if k < 0 then Inl ValueError
      else Inr (sample_distinct (nat k) pool r))"

text \<open>\<open>np.random.choice([-1, 1])\<close>: one member of a non-empty list.\<close>

definition choice1 :: "'a list \<Rightarrow> rng \<Rightarrow> 'a \<times> rng" where
  "choice1 pool r = (pool ! (pick r 0 mod length pool), skip_pick 1 r)"

text \<open>\<open>int(x)\<close> on a float truncates towards zero.\<close>

definition py_int :: "real \<Rightarrow> int" where
  "py_int x = (if 0 \<le> x then \<lfloor>x\<rfloor> else \<lceil>x\<rceil>)"

text \<open>\<open>range(a, b)\<close>, empty when \<open>b \<le> a\<close>.\<close>

definition py_range :: "int \<Rightarrow> int \<Rightarrow> int list" where
  "py_range a b = map (\<lambda>k. a + int k) [0..<nat (b - a)]"

subsection \<open>Anomaly series (\<open>generate_anomaly_series\<close>)\<close>

definition anomaly_sign :: "string \<Rightarrow> rng \<Rightarrow> real \<times> rng" where
  "anomaly_sign anomaly_direction r =
     (if anomaly_direction = ''up'' then (1, r)
      else if anomaly_direction = ''down'' then (- 1, r)
      else choice1 [- 1, 1] r)"

text \<open>
  The loop over \<open>anomaly_indices\<close>. It runs on the array \<open>vals\<close> of length
  \<open>n_points\<close>, so the guard \<open>0 <= idx < n_points\<close> keeps every update in range.
\<close>

fun inject_anomalies ::
  "int \<Rightarrow> real \<Rightarrow> real \<Rightarrow> string \<Rightarrow> int list \<Rightarrow> real list \<Rightarrow> bool list \<Rightarrow> rng
     \<Rightarrow> real list \<times> bool list \<times> rng" where
  "inject_anomalies n_points base_value anomaly_magnitude anomaly_direction [] vals flags r =
     (vals, flags, r)"
| "inject_anomalies n_points base_value anomaly_magnitude anomaly_direction (idx # rest) vals flags r =
     (if 0 \<le> idx \<and> idx < n_points then
        inject_anomalies n_points base_value anomaly_magnitude anomaly_direction rest
          (vals[nat idx := vals ! nat idx
                  + fst (anomaly_sign anomaly_direction r) * base_value * anomaly_magnitude])
          (flags[nat idx := True])
          (snd (anomaly_sign anomaly_direction r))
      else
        inject_anomalies n_points base_value anomaly_magnitude anomaly_direction rest vals flags r)"

text \<open>
  The number of positions drawn when none are given is \<open>max(1, int(n_points *
  0.05))\<close>: the literal is the double nearest to 0.05, the product is rounded, and
  \<open>int\<close> truncates the rounded product.
\<close>

definition generate_anomaly_series ::
  "int \<Rightarrow> real \<Rightarrow> int list option \<Rightarrow> real \<Rightarrow> string \<Rightarrow> real \<Rightarrow> rng
     \<Rightarrow> py_error + ((real list \<times> bool list) \<times> rng)" where
  "generate_anomaly_series n_points base_value anomaly_indices anomaly_magnitude
       anomaly_direction noise_level r =
     (let t = arange n_points;
          trend = map (\<lambda>i. base_value + 0.001 * base_value * real i) t
      in case noise_array base_value noise_level n_points r of
           Inl e \<Rightarrow> Inl e
         | Inr (noise, r1) \<Rightarrow>
             (let vals = add_arrays trend noise;
                  anomaly_flags = replicate (nat n_points) False
              in case (case anomaly_indices of
                         Some given \<Rightarrow> Inr (given, r1)
                       | None \<Rightarrow>
                           choice (map int (arange n_points))
                             (max 1 (py_int (round_to_double
                                (float_of_int n_points * round_to_double (5/100))))) r1) of
                   Inl e \<Rightarrow> Inl e
                 | Inr (indices, r2) \<Rightarrow>
                     (case inject_anomalies n_points base_value anomaly_magnitude
                             anomaly_direction indices vals anomaly_flags r2 of
                        (vals', flags', r3) \<Rightarrow> Inr ((vals', flags'), r3))))"

subsection \<open>Dates and times\<close>

text \<open>
  A naive \<open>datetime\<close> of the standard library and its arithmetic, after the
  reference implementation: a date is counted in days from 0001-01-01 (day 1) in
  the proleptic Gregorian calendar, and the last date is 9999-12-31, day 3652059.
  A \<open>timedelta\<close> is its length in microseconds; its days must stay within
  999999999 in magnitude. Both bounds raise \<open>OverflowError\<close>.
\<close>

record datetime =
  year :: int
  month :: int
  day :: int
  hour :: int
  minute :: int
  second :: int
  microsecond :: int

definition is_leap :: "int \<Rightarrow> bool" where
  "is_leap y = (y mod 4 = 0 \<and> (y mod 100 \<noteq> 0 \<or> y mod 400 = 0))"

definition days_before_year :: "int \<Rightarrow> int" where
  "days_before_year y = (let p = y - 1 in p * 365 + p div 4 - p div 100 + p div 400)"

definition days_in_month :: "int \<Rightarrow> int \<Rightarrow> int" where
  "days_in_month y m =
     (if m = 2 \<and> is_leap y then 29
      else [31, 28, 31, 30, 31, 30, 31, 31, 30, 31, 30, 31] ! nat (m - 1))"

definition days_before_month :: "int \<Rightarrow> int \<Rightarrow> int" where
  "days_before_month y m =
     [0, 31, 59, 90, 120, 151, 181, 212, 243, 273, 304, 334] ! nat (m - 1)
       + (if m > 2 \<and> is_leap y then 1 else 0)"

definition ymd2ord :: "int \<Rightarrow> int \<Rightarrow> int \<Rightarrow> int" where
  "ymd2ord y m d = days_before_year y + days_before_month y m + d"

definition valid_datetime :: "datetime \<Rightarrow> bool" where
  "valid_datetime d =
     (1 \<le> year d \<and> year d \<le> 9999 \<and> 1 \<le> month d \<and> month d \<le> 12
      \<and> 1 \<le> day d \<and> day d \<le> days_in_month (year d) (month d)
      \<and> 0 \<le> hour d \<and> hour d < 24 \<and> 0 \<le> minute d \<and> minute d < 60
      \<and> 0 \<le> second d \<and> second d < 60 \<and> 0 \<le> microsecond d \<and> microsecond d < 1000000)"

text \<open>
  The inverse of \<open>ymd2ord\<close>: the date of day \<open>n\<close>. The calendar repeats every
  400 years (146097 days); within a cycle a century has 36524 days, a group of
  four years 1461, a year 365.
\<close>

definition ord2ymd :: "int \<Rightarrow> int \<times> int \<times> int" where
  "ord2ymd n0 =
     (let n = n0 - 1;
          n400 = n div 146097; n = n mod 146097;
          n100 = n div 36524; n = n mod 36524;
          n4 = n div 1461; n = n mod 1461;
          n1 = n div 365; n = n mod 365;
          y = n400 * 400 + 1 + n100 * 100 + n4 * 4 + n1
      in if n1 = 4 \<or> n100 = 4 then (y - 1, 12, 31)
         else
           let leapyear = (n1 = 3 \<and> (n4 \<noteq> 24 \<or> n100 = 3));
               m = (n + 50) div 32;
               preceding =
                 [0, 31, 59, 90, 120, 151, 181, 212, 243, 273, 304, 334] ! nat (m - 1)
                   + (if m > 2 \<and> leapyear then 1 else 0)
           in if preceding > n then
                (let m' = m - 1;
                     preceding' = preceding
                       - ([31, 28, 31, 30, 31, 30, 31, 31, 30, 31, 30, 31] ! nat (m' - 1)
                          + (if m' = 2 \<and> leapyear then 1 else 0))
                 in (y, m', n - preceding' + 1))
              else (y, m, n - preceding + 1))"

definition us_per_day :: int where
  "us_per_day = 86400000000"

definition timedelta :: "int \<Rightarrow> int \<Rightarrow> int" where
  \<comment> \<open>\<open>timedelta(days=d, hours=h)\<close>\<close>
  "timedelta d h = d * us_per_day + h * 3600000000"

definition timedelta_mul :: "int \<Rightarrow> int \<Rightarrow> py_error + int" where
  \<comment> \<open>\<open>i * delta\<close>\<close>
  "timedelta_mul i delta =
     (if \<bar>(i * delta) div us_per_day\<bar> > 999999999 then Inl OverflowError
      else Inr (i * delta))"

definition datetime_add :: "datetime \<Rightarrow> int \<Rightarrow> py_error + datetime" where
  \<comment> \<open>\<open>dt + delta\<close>\<close>
  "datetime_add dt delta =
     (let total = ymd2ord (year dt) (month dt) (day dt) * us_per_day
                  + ((hour dt * 3600 + minute dt * 60 + second dt) * 1000000 + microsecond dt)
                  + delta;
          days = total div us_per_day;
          us = total mod us_per_day
      in if 0 < days \<and> days \<le> 3652059 then
           (case ord2ymd days of
              (y, m, d) \<Rightarrow>
                Inr \<lparr>year = y, month = m, day = d,
                     hour = us div 3600000000,
                     minute = (us mod 3600000000) div 60000000,
                     second = (us mod 60000000) div 1000000,
                     microsecond = us mod 1000000\<rparr>)
         else Inl OverflowError)"

text \<open>
  \<open>dt.strftime("%m/%d/%Y, %I:%M %p")\<close>: month, day, hour on the 12-hour clock
  and minute in two digits, \<open>AM\<close> before noon and \<open>PM\<close> from noon on (the C
  locale). The year is printed by the C library, which on Linux does not pad it:
  \<open>%Y\<close> gives four digits from the year 1000 on and fewer before
  (\<open>datetime(999, 1, 1)\<close> formats as \<open>01/01/999, 12:00 AM\<close>).
\<close>

definition zero_pad :: "nat \<Rightarrow> int \<Rightarrow> string" where
  "zero_pad w k = (let s = str_nat (nat k) in replicate (w - length s) CHR ''0'' @ s)"

definition hour12 :: "int \<Rightarrow> int" where
  "hour12 h = (if h mod 12 = 0 then 12 else h mod 12)"

definition strftime :: "datetime \<Rightarrow> string" where
  "strftime dt =
     zero_pad 2 (month dt) @ ''/'' @ zero_pad 2 (day dt) @ ''/'' @ str_nat (nat (year dt))
       @ '', '' @ zero_pad 2 (hour12 (hour dt)) @ '':'' @ zero_pad 2 (minute dt)
       @ '' '' @ (if hour dt < 12 then ''AM'' else ''PM'')"

subsection \<open>Timestamps (\<open>generate_timestamps\<close>)\<close>

definition freq_delta :: "(string \<times> int) list" where
  "freq_delta =
     [(''H'', timedelta 0 1), (''D'', timedelta 1 0), (''W'', timedelta 7 0),
      (''M'', timedelta 30 0)]"

text \<open>The body of the loop: the string appended for index \<open>i\<close>.\<close>

definition stamp :: "datetime \<Rightarrow> int \<Rightarrow> nat \<Rightarrow> py_error + string" where
  "stamp start_date delta i =
     (case timedelta_mul (int i) delta of
        Inl e \<Rightarrow> Inl e
      | Inr step \<Rightarrow>
          (case datetime_add start_date step of
             Inl e \<Rightarrow> Inl e
           | Inr dt \<Rightarrow> Inr (strftime dt)))"

fun timestamps_loop ::
  "datetime \<Rightarrow> int \<Rightarrow> nat list \<Rightarrow> string list \<Rightarrow> py_error + string list" where
  "timestamps_loop start_date delta [] timestamps = Inr timestamps"
| "timestamps_loop start_date delta (i # rest) timestamps =
     (case stamp start_date delta i of
        Inl e \<Rightarrow> Inl e
      | Inr s \<Rightarrow> timestamps_loop start_date delta rest (timestamps @ [s]))"

text \<open>
  \<open>now\<close> is what \<open>datetime.now()\<close> returns at the call; it is read only when
  \<open>start_date\<close> is omitted.
\<close>

definition generate_timestamps ::
  "datetime \<Rightarrow> int \<Rightarrow> datetime option \<Rightarrow> string \<Rightarrow> py_error + string list" where
  "generate_timestamps now n_points start_date freq =
     (case (case start_date of
              None \<Rightarrow> datetime_add now (- timedelta 30 0)
            | Some d \<Rightarrow> Inr d) of
        Inl e \<Rightarrow> Inl e
      | Inr start \<Rightarrow>
          timestamps_loop start (dict_get freq_delta freq (timedelta 0 1)) (arange n_points) [])"

subsection \<open>Anomaly-detection payload (\<open>generate_ad_payload_data\<close>)\<close>

record payload =
  timestamp :: string
  payload_value :: int

definition generate_ad_payload_data ::
  "datetime \<Rightarrow> int \<Rightarrow> real \<Rightarrow> bool \<Rightarrow> real \<Rightarrow> rng \<Rightarrow> py_error + (payload list \<times> rng)" where
  "generate_ad_payload_data now n_points base_value inject anomaly_ratio r =
     (case generate_timestamps now n_points None ''H'' of
        Inl e \<Rightarrow> Inl e
      | Inr timestamps \<Rightarrow>
          (case (if inject then
                   (case choice (py_range (n_points div 2) n_points)
                           (max 1 (py_int (round_to_double
                              (float_of_int n_points * anomaly_ratio)))) r of
                      Inl e \<Rightarrow> Inl e
                    | Inr (anomaly_indices, r1) \<Rightarrow>
                        generate_anomaly_series n_points base_value (Some anomaly_indices)
                          0.4 ''both'' 0.03 r1)
                 else generate_anomaly_series n_points base_value (Some []) 0.5 ''both'' 0.03 r) of
             Inl e \<Rightarrow> Inl e
           | Inr ((vals, flags), r2) \<Rightarrow>
               Inr (map (\<lambda>(ts, v). \<lparr>timestamp = ts, payload_value = py_int v\<rparr>)
                      (zip timestamps vals), r2)))"

subsection \<open>Covariates (\<open>generate_covariates\<close>)\<close>

record covariates =
  static_numerical_covariates :: "real dict dict"
  static_categorical_covariates :: "string dict dict"
  dynamic_numerical_covariates :: "real list dict dict"
  dynamic_categorical_covariates :: "string list dict dict"

text \<open>
  \<open>{sid: f(i, sid) for i, sid in enumerate(series_ids)}\<close>: the pairs are stored in
  order, a repeated identifier keeping its place and taking the later entry.
\<close>

definition dict_of_enumerate :: "(nat \<Rightarrow> string \<Rightarrow> 'v) \<Rightarrow> string list \<Rightarrow> 'v dict" where
  "dict_of_enumerate f series_ids =
     fold (\<lambda>(i, sid) d. AList.update sid (f i sid) d) (enumerate 0 series_ids) []"

definition categories :: "string list" where
  "categories = [''electronics'', ''clothing'', ''food'', ''home'']"

definition days :: "string list" where
  "days = [''Mon'', ''Tue'', ''Wed'', ''Thu'', ''Fri'', ''Sat'', ''Sun'']"

text \<open>
  \<open>[20 + 10 * np.sin(2 * np.pi * t / 24) + np.random.normal(0, 2) for t in ...]\<close>:
  one draw per index, in order.
\<close>

fun temperature_list :: "nat list \<Rightarrow> rng \<Rightarrow> py_error + (real list \<times> rng)" where
  "temperature_list [] r = Inr ([], r)"
| "temperature_list (t # rest) r =
     (case normal1 0 2 r of
        Inl e \<Rightarrow> Inl e
      | Inr (z, r') \<Rightarrow>
          (case temperature_list rest r' of
             Inl e \<Rightarrow> Inl e
           | Inr (xs, r'') \<Rightarrow> Inr ((20 + 10 * sin (2 * pi * real t / 24) + z) # xs, r'')))"

fun temperature_dict ::
  "int \<Rightarrow> string list \<Rightarrow> real list dict \<Rightarrow> rng \<Rightarrow> py_error + (real list dict \<times> rng)" where
  "temperature_dict total_len [] d r = Inr (d, r)"
| "temperature_dict total_len (sid # rest) d r =
     (case temperature_list (arange total_len) r of
        Inl e \<Rightarrow> Inl e
      | Inr (xs, r') \<Rightarrow> temperature_dict total_len rest (AList.update sid xs d) r')"

definition generate_covariates ::
  "int \<Rightarrow> string list \<Rightarrow> bool \<Rightarrow> int \<Rightarrow> rng \<Rightarrow> py_error + (covariates \<times> rng)" where
  "generate_covariates n_points series_ids include_horizon horizon_len r =
     (let total_len = (if include_horizon then n_points + horizon_len else n_points);
          static_numerical =
            [(''base_price'', dict_of_enumerate (\<lambda>i sid. 100 + real i * 50) series_ids)];
          static_categorical =
            [(''category'',
              dict_of_enumerate (\<lambda>i sid. categories ! (i mod length categories)) series_ids)]
      in case temperature_dict total_len series_ids [] r of
           Inl e \<Rightarrow> Inl e
         | Inr (temperature, r') \<Rightarrow>
             (let dynamic_categorical =
                    [(''day_of_week'',
                      fold (\<lambda>sid d. AList.update sid (map (\<lambda>t. days ! (t mod 7)) (arange total_len)) d)
                        series_ids [])]
              in Inr (\<lparr>static_numerical_covariates = static_numerical,
                        static_categorical_covariates = static_categorical,
                        dynamic_numerical_covariates = [(''temperature'', temperature)],
                        dynamic_categorical_covariates = dynamic_categorical\<rparr>, r')))"

subsection \<open>Electricity-like data (\<open>generate_electricity_like_data\<close>)\<close>

definition intraday_shape :: "real list" where
  "intraday_shape =
     [0.8, 0.7, 0.7, 0.7, 0.8, 0.9, 1.0, 1.2, 1.3, 1.2, 1.1, 1.0,
      1.0, 1.1, 1.1, 1.2, 1.3, 1.4, 1.3, 1.2, 1.1, 1.0, 0.9, 0.8]"

text \<open>\<open>np.tile(xs, reps)\<close>: the list repeated; a negative count raises \<open>ValueError\<close>.\<close>

definition np_tile :: "'a list \<Rightarrow> int \<Rightarrow> py_error + 'a list" where
  "np_tile xs reps = (if reps < 0 then Inl ValueError else Inr (concat (replicate (nat reps) xs)))"

definition weekly_factor :: "nat \<Rightarrow> real" where
  "weekly_factor i = (if (i div 24) mod 7 < 5 then 1 else 0.85)"

text \<open>
  The loop over the countries. Once \<open>np.tile\<close>, \<open>np.linspace\<close> and the noise have
  been produced, all four arrays have \<open>n_points = n_days * 24\<close> entries, and the
  price of index \<open>i\<close> is \<open>base * hourly[i] * weekly[i] + trend[i] + noise[i]\<close>.
\<close>

fun price_loop ::
  "int \<Rightarrow> int \<Rightarrow> string list \<Rightarrow> real list dict \<Rightarrow> rng \<Rightarrow> py_error + (real list dict \<times> rng)" where
  "price_loop n_days n_points [] prices r = Inr (prices, r)"
| "price_loop n_days n_points (country # rest) prices r =
     (case np_tile intraday_shape n_days of
        Inl e \<Rightarrow> Inl e
      | Inr hourly \<Rightarrow>
          (case linspace 0 5 n_points of
             Inl e \<Rightarrow> Inl e
           | Inr trend \<Rightarrow>
               (case normal 0 3 n_points r of
                  Inl e \<Rightarrow> Inl e
                | Inr (noise, r') \<Rightarrow>
                    price_loop n_days n_points rest
                      (AList.update country
                         (map (\<lambda>i. (if country = ''FR'' then 50 else 55) * hourly ! i * weekly_factor i
                                    + trend ! i + noise ! i)
                              (arange n_points))
                         prices)
                      r')))"

text \<open>
  \<open>[5000 + 2000 * np.sin(2 * np.pi * t / 24) + np.random.normal(0, 200) for t in ...]\<close>
  for every country.
\<close>

fun forecast_list :: "nat list \<Rightarrow> rng \<Rightarrow> py_error + (real list \<times> rng)" where
  "forecast_list [] r = Inr ([], r)"
| "forecast_list (t # rest) r =
     (case normal1 0 200 r of
        Inl e \<Rightarrow> Inl e
      | Inr (z, r') \<Rightarrow>
          (case forecast_list rest r' of
             Inl e \<Rightarrow> Inl e
           | Inr (xs, r'') \<Rightarrow> Inr ((5000 + 2000 * sin (2 * pi * real t / 24) + z) # xs, r'')))"

fun forecast_dict ::
  "int \<Rightarrow> string list \<Rightarrow> real list dict \<Rightarrow> rng \<Rightarrow> py_error + (real list dict \<times> rng)" where
  "forecast_dict total_len [] d r = Inr (d, r)"
| "forecast_dict total_len (country # rest) d r =
     (case forecast_list (arange total_len) r of
        Inl e \<Rightarrow> Inl e
      | Inr (xs, r') \<Rightarrow> forecast_dict total_len rest (AList.update country xs d) r')"

definition generate_electricity_like_data ::
  "int \<Rightarrow> string list option \<Rightarrow> rng
     \<Rightarrow> py_error + ((real list dict \<times> covariates) \<times> rng)" where
  "generate_electricity_like_data n_days countries_arg r =
     (let countries = (case countries_arg of None \<Rightarrow> [''FR'', ''BE''] | Some cs \<Rightarrow> cs);
          n_points = n_days * 24
      in case price_loop n_days n_points countries [] r of
           Inl e \<Rightarrow> Inl e
         | Inr (prices, r1) \<Rightarrow>
             (case generate_covariates n_points countries True 24 r1 of
                Inl e \<Rightarrow> Inl e
              | Inr (cov, r2) \<Rightarrow>
                  (case forecast_dict (n_points + 24) countries [] r2 of
                     Inl e \<Rightarrow> Inl e
                   | Inr (gen_forecast, r3) \<Rightarrow>
                       Inr ((prices,
                             cov\<lparr>dynamic_numerical_covariates :=
                                   AList.update ''gen_forecast'' gen_forecast
                                     (dynamic_numerical_covariates cov)\<rparr>), r3))))"

subsection \<open>The blend of the specification\<close>

text \<open>
  The specification's words for one entry of a correlated series (section 4.4):
  the base, plus a linear ramp from 0 to \<open>0.3 * base\<close> over the points, plus
  \<open>base * noise_level\<close> times the blend
  \<open>correlation * common + sqrt (1 - correlation\<^sup>2) * individual\<close>. Here \<open>c\<close> and
  \<open>z\<close> are the common and the individual variate of index \<open>t\<close>.
\<close>

definition ramp :: "real \<Rightarrow> int \<Rightarrow> nat \<Rightarrow> real" where
  "ramp peak n_points t = (if n_points = 1 then 0 else real t * peak / real_of_int (n_points - 1))"

definition spec_series_value :: "real \<Rightarrow> real \<Rightarrow> real \<Rightarrow> int \<Rightarrow> real \<Rightarrow> real \<Rightarrow> nat \<Rightarrow> np_float" where
  "spec_series_value base correlation noise_level n_points c z t =
     fadd (Fin (base + ramp (0.3 * base) n_points t))
          (fmul (Fin (base * noise_level))
                (fadd (Fin (correlation * c)) (fmul (np_sqrt (1 - correlation\<^sup>2)) (Fin z))))"

subsection \<open>What the caller sees\<close>

text \<open>The value a call returns, without the state the generator is left in.\<close>

definition returned :: "'e + ('a \<times> rng) \<Rightarrow> 'e + 'a" where
  "returned res = map_sum id fst res"

section \<open>Properties\<close>

subsection \<open>Rounding to a double\<close>

lemma round_half_even_error: "\<bar>of_int (round_half_even x) - x\<bar> \<le> 1/2"
  unfolding round_half_even_def Let_def by (auto; linarith)

lemma round_half_even_of_int: "round_half_even (of_int k) = k"
  by (simp add: round_half_even_def)

lemma round_half_even_near: "\<bar>x - of_int m\<bar> < 1/2 \<Longrightarrow> round_half_even x = m"
proof -
  assume a: "\<bar>x - of_int m\<bar> < 1/2"
  have "\<bar>of_int (round_half_even x) - x\<bar> \<le> 1/2" by (rule round_half_even_error)
  with a have "\<bar>real_of_int (round_half_even x) - of_int m\<bar> < 1" by linarith
  then have "\<bar>real_of_int (round_half_even x - m)\<bar> < 1" by simp
  then have "\<bar>round_half_even x - m\<bar> < 1" by linarith
  then show ?thesis by simp
qed

lemma round_half_even_le: "x \<le> of_int k \<Longrightarrow> round_half_even x \<le> k"
  unfolding round_half_even_def Let_def
  by (auto; linarith)

lemma round_half_even_ge: "of_int k \<le> x \<Longrightarrow> k \<le> round_half_even x"
  unfolding round_half_even_def Let_def
  by (auto; linarith)

lemma round_half_even_mono: "x \<le> y \<Longrightarrow> round_half_even x \<le> round_half_even y"
proof -
  assume xy: "x \<le> y"
  have fl: "\<lfloor>x\<rfloor> \<le> \<lfloor>y\<rfloor>" using xy by (rule floor_mono)
  show ?thesis
  proof (cases "\<lfloor>x\<rfloor> = \<lfloor>y\<rfloor>")
    case True
    then show ?thesis using xy
      unfolding round_half_even_def Let_def by (auto; linarith)
  next
    case False
    with fl have "\<lfloor>x\<rfloor> + 1 \<le> \<lfloor>y\<rfloor>" by simp
    moreover have "round_half_even x \<le> \<lfloor>x\<rfloor> + 1"
      unfolding round_half_even_def Let_def by auto
    moreover have "\<lfloor>y\<rfloor> \<le> round_half_even y"
      unfolding round_half_even_def Let_def by auto
    ultimately show ?thesis by linarith
  qed
qed

lemma binade_eq:
  "2 powr of_int e \<le> \<bar>x\<bar> \<Longrightarrow> \<bar>x\<bar> < 2 powr (of_int e + 1) \<Longrightarrow> binade x = e"
proof -
  assume lo: "2 powr of_int e \<le> \<bar>x\<bar>" and hi: "\<bar>x\<bar> < 2 powr (of_int e + 1)"
  have "0 < (2::real) powr of_int e" by simp
  with lo have pos: "0 < \<bar>x\<bar>" by linarith
  show ?thesis
    unfolding binade_def using floor_log_eq_powr_iff [of "\<bar>x\<bar>" 2 e] pos lo hi by simp
qed

lemma binade_bounds:
  "x \<noteq> 0 \<Longrightarrow> 2 powr of_int (binade x) \<le> \<bar>x\<bar> \<and> \<bar>x\<bar> < 2 powr (of_int (binade x) + 1)"
  unfolding binade_def using floor_log_eq_powr_iff [of "\<bar>x\<bar>" 2 "\<lfloor>log 2 \<bar>x\<bar>\<rfloor>"] by simp

lemma ulp_pos: "0 < ulp x"
  by (simp add: ulp_def)

lemma round_to_double_zero: "round_to_double 0 = 0"
  by (simp add: round_to_double_def)

lemma binade_minus: "binade (- x) = binade x"
  by (simp add: binade_def)

lemma ulp_minus: "ulp (- x) = ulp x"
  by (simp add: ulp_def binade_minus)

lemma round_to_double_minus: "round_to_double (- x) = - round_to_double x"
  by (simp add: round_to_double_def ulp_minus sgn_minus)

lemma round_to_double_pos:
  "0 < x \<Longrightarrow> round_to_double x = of_int (round_half_even (x / ulp x)) * ulp x"
  by (simp add: round_to_double_def)

lemma ulp_in_binade:
  "2 powr of_int e \<le> \<bar>x\<bar> \<Longrightarrow> \<bar>x\<bar> < 2 powr (of_int e + 1) \<Longrightarrow> ulp x = 2 powr (of_int e - 52)"
  by (simp add: ulp_def binade_eq)

lemma round_to_double_in_binade:
  assumes "2 powr of_int e \<le> x" and "x < 2 powr (of_int e + 1)"
  shows "round_to_double x
           = of_int (round_half_even (x / 2 powr (of_int e - 52))) * 2 powr (of_int e - 52)"
proof -
  have "0 < (2::real) powr of_int e" by simp
  with assms(1) have pos: "0 < x" by linarith
  then have "ulp x = 2 powr (of_int e - 52)"
    using assms by (intro ulp_in_binade) simp_all
  with pos show ?thesis by (simp add: round_to_double_pos)
qed

lemma round_to_double_error: "\<bar>round_to_double x - x\<bar> \<le> ulp x / 2"
proof (cases "x = 0")
  case True
  then show ?thesis using ulp_pos [of 0] by (simp add: round_to_double_zero)
next
  case False
  define q where "q = ulp x"
  define m where "m = round_half_even (\<bar>x\<bar> / q)"
  have q: "0 < q" by (simp add: q_def ulp_pos)
  have "\<bar>of_int m - \<bar>x\<bar> / q\<bar> \<le> 1/2"
    unfolding m_def by (rule round_half_even_error)
  then have "\<bar>of_int m - \<bar>x\<bar> / q\<bar> * q \<le> 1/2 * q"
    using q by (intro mult_right_mono) simp_all
  then have "\<bar>(of_int m - \<bar>x\<bar> / q) * q\<bar> \<le> q / 2"
    using q by (simp add: abs_mult)
  then have mag: "\<bar>of_int m * q - \<bar>x\<bar>\<bar> \<le> q / 2"
    using q by (simp add: algebra_simps)
  have rd: "round_to_double x = sgn x * (of_int m * q)"
    using False by (simp add: round_to_double_def m_def q_def)
  have "round_to_double x - x = sgn x * (of_int m * q - \<bar>x\<bar>)"
    unfolding rd using abs_sgn [of x] by (simp add: algebra_simps)
  then have "\<bar>round_to_double x - x\<bar> = \<bar>of_int m * q - \<bar>x\<bar>\<bar>"
    using False by (simp add: abs_mult abs_sgn_eq)
  with mag show ?thesis by (simp add: q_def)
qed

lemma ulp_le: "x \<noteq> 0 \<Longrightarrow> ulp x \<le> \<bar>x\<bar> / 2 ^ 52"
proof -
  assume "x \<noteq> 0"
  then have "2 powr of_int (binade x) \<le> \<bar>x\<bar>" using binade_bounds by blast
  moreover have "ulp x = 2 powr of_int (binade x) / 2 ^ 52"
    by (simp add: ulp_def powr_diff)
  ultimately show ?thesis by (simp add: divide_right_mono)
qed

lemma round_to_double_relative_error: "\<bar>round_to_double x - x\<bar> \<le> \<bar>x\<bar> / 2 ^ 53"
proof (cases "x = 0")
  case True
  then show ?thesis by (simp add: round_to_double_zero)
next
  case False
  have "\<bar>round_to_double x - x\<bar> \<le> ulp x / 2" by (rule round_to_double_error)
  also have "\<dots> \<le> (\<bar>x\<bar> / 2 ^ 52) / 2" using ulp_le [OF False] by simp
  finally show ?thesis by simp
qed

lemma round_to_double_range:
  assumes "0 < x"
  shows "2 powr of_int (binade x) \<le> round_to_double x"
    and "round_to_double x \<le> 2 powr (of_int (binade x) + 1)"
proof -
  define e where "e = binade x"
  define q where "q = (2::real) powr (of_int e - 52)"
  have q: "0 < q" by (simp add: q_def)
  have b: "2 powr of_int e \<le> x" "x < 2 powr (of_int e + 1)"
    using binade_bounds [of x] assms by (simp_all add: e_def)
  have rd: "round_to_double x = of_int (round_half_even (x / q)) * q"
    using assms by (simp add: round_to_double_pos ulp_def e_def q_def)
  have lo: "2 powr of_int e = of_int (2 ^ 52) * q"
    by (simp add: q_def powr_diff)
  have hi: "2 powr (of_int e + 1) = of_int (2 ^ 53) * q"
    by (simp add: q_def powr_diff powr_add)
  have "of_int (2 ^ 52) \<le> x / q"
    using b(1) q unfolding lo by (simp add: pos_le_divide_eq)
  then have "2 ^ 52 \<le> round_half_even (x / q)" by (rule round_half_even_ge)
  then have "real_of_int (2 ^ 52) \<le> of_int (round_half_even (x / q))" by linarith
  then have "of_int (2 ^ 52) * q \<le> of_int (round_half_even (x / q)) * q"
    using q by (intro mult_right_mono) simp_all
  then show "2 powr of_int (binade x) \<le> round_to_double x"
    unfolding rd lo e_def [symmetric] by simp
  have "x / q \<le> of_int (2 ^ 53)"
    using b(2) q unfolding hi by (simp add: pos_divide_le_eq)
  then have "round_half_even (x / q) \<le> 2 ^ 53" by (rule round_half_even_le)
  then have "real_of_int (round_half_even (x / q)) \<le> of_int (2 ^ 53)" by linarith
  then have "of_int (round_half_even (x / q)) * q \<le> of_int (2 ^ 53) * q"
    using q by (intro mult_right_mono) simp_all
  then show "round_to_double x \<le> 2 powr (of_int (binade x) + 1)"
    unfolding rd hi e_def [symmetric] by simp
qed

lemma round_to_double_nonneg: "0 \<le> x \<Longrightarrow> 0 \<le> round_to_double x"
proof (cases "x = 0")
  case True
  then show ?thesis by (simp add: round_to_double_zero)
next
  case False
  assume "0 \<le> x"
  with False have "0 < x" by simp
  then have "2 powr of_int (binade x) \<le> round_to_double x" by (rule round_to_double_range)
  moreover have "0 < (2::real) powr of_int (binade x)" by simp
  ultimately show ?thesis by linarith
qed

lemma binade_mono: "0 < x \<Longrightarrow> x \<le> y \<Longrightarrow> binade x \<le> binade y"
  unfolding binade_def by (intro floor_mono) simp

lemma round_to_double_mono_pos:
  assumes "0 < x" and "x \<le> y"
  shows "round_to_double x \<le> round_to_double y"
proof -
  have y: "0 < y" using assms by simp
  have le: "binade x \<le> binade y" using assms by (rule binade_mono)
  show ?thesis
  proof (cases "binade x = binade y")
    case True
    then have u: "ulp x = ulp y" by (simp add: ulp_def)
    have "x / ulp y \<le> y / ulp y"
      using assms(2) ulp_pos [of y] by (simp add: divide_right_mono)
    then have "round_half_even (x / ulp y) \<le> round_half_even (y / ulp y)"
      by (rule round_half_even_mono)
    then have "real_of_int (round_half_even (x / ulp y)) \<le> of_int (round_half_even (y / ulp y))"
      by linarith
    then have "of_int (round_half_even (x / ulp y)) * ulp y
                 \<le> of_int (round_half_even (y / ulp y)) * ulp y"
      using ulp_pos [of y] by (intro mult_right_mono) simp_all
    then show ?thesis
      using assms(1) y by (simp add: round_to_double_pos u)
  next
    case False
    with le have "binade x + 1 \<le> binade y" by simp
    then have "real_of_int (binade x) + 1 \<le> of_int (binade y)" by linarith
    then have "(2::real) powr (of_int (binade x) + 1) \<le> 2 powr of_int (binade y)"
      by simp
    moreover have "round_to_double x \<le> 2 powr (of_int (binade x) + 1)"
      using assms(1) by (rule round_to_double_range)
    moreover have "2 powr of_int (binade y) \<le> round_to_double y"
      using y by (rule round_to_double_range)
    ultimately show ?thesis by linarith
  qed
qed

lemma round_to_double_mono: "x \<le> y \<Longrightarrow> round_to_double x \<le> round_to_double y"
proof -
  assume xy: "x \<le> y"
  consider "0 < x" | "x \<le> 0" "0 \<le> y" | "y < 0" by linarith
  then show ?thesis
  proof cases
    case 1
    then show ?thesis using xy by (rule round_to_double_mono_pos)
  next
    case 2
    have "0 \<le> round_to_double (- x)" using 2(1) by (intro round_to_double_nonneg) simp
    then have "round_to_double x \<le> 0" by (simp add: round_to_double_minus)
    moreover have "0 \<le> round_to_double y" using 2(2) by (rule round_to_double_nonneg)
    ultimately show ?thesis by linarith
  next
    case 3
    then have "0 < - y" "- y \<le> - x" using xy by simp_all
    then have "round_to_double (- y) \<le> round_to_double (- x)"
      by (rule round_to_double_mono_pos)
    then show ?thesis by (simp add: round_to_double_minus)
  qed
qed

text \<open>A number with a significand of at most 53 bits is its own rounding.\<close>

lemma round_to_double_grid_pos:
  assumes "0 < k" and "k < 2 ^ 53"
  shows "round_to_double (of_int k * 2 powr of_int j) = of_int k * 2 powr of_int j"
proof -
  define x where "x = real_of_int k * 2 powr of_int j"
  define e where "e = binade x"
  have pos: "0 < x" using assms(1) by (simp add: x_def)
  have b: "2 powr of_int e \<le> x" using binade_bounds [of x] pos by (simp add: e_def)
  have "x < of_int (2 ^ 53) * 2 powr of_int j"
    unfolding x_def using assms(2) by (intro mult_strict_right_mono) simp_all
  also have "\<dots> = 2 powr (of_int j + 53)"
    by (simp add: powr_add)
  finally have "(2::real) powr of_int e < 2 powr (of_int j + 53)" using b by linarith
  then have "real_of_int e < of_int j + 53" by simp
  then have d: "0 \<le> j - e + 52" by linarith
  define d where "d = j - e + 52"
  have d0: "0 \<le> d" using d by (simp add: d_def)
  have ex: "real_of_int j - (real_of_int e - 52) = of_int d" by (simp add: d_def)
  have "x / ulp x = of_int k * (2 powr of_int j / 2 powr (of_int e - 52))"
    by (simp add: x_def ulp_def e_def)
  also have "2 powr of_int j / 2 powr (of_int e - 52) = (2::real) powr of_int d"
    unfolding powr_diff [symmetric] ex ..
  also have "\<dots> = 2 ^ nat d"
    using d0 by (simp add: powr_real_of_int)
  finally have "x / ulp x = of_int (k * 2 ^ nat (j - e + 52))" by (simp add: d_def)
  then have "round_half_even (x / ulp x) = k * 2 ^ nat (j - e + 52)"
    by (simp only: round_half_even_of_int)
  then have "of_int (round_half_even (x / ulp x)) = x / ulp x"
    using \<open>x / ulp x = of_int (k * 2 ^ nat (j - e + 52))\<close> by simp
  then have "round_to_double x = x / ulp x * ulp x"
    using pos by (simp add: round_to_double_pos)
  then show ?thesis
    using ulp_pos [of x] by (simp add: x_def)
qed

lemma round_to_double_grid:
  assumes "\<bar>k\<bar> < 2 ^ 53"
  shows "round_to_double (of_int k * 2 powr of_int j) = of_int k * 2 powr of_int j"
proof -
  consider "0 < k" | "k = 0" | "k < 0" by linarith
  then show ?thesis
  proof cases
    case 1
    then show ?thesis using assms by (intro round_to_double_grid_pos) simp_all
  next
    case 2
    then show ?thesis by (simp add: round_to_double_zero)
  next
    case 3
    then have "round_to_double (of_int (- k) * 2 powr of_int j) = of_int (- k) * 2 powr of_int j"
      using assms by (intro round_to_double_grid_pos) simp_all
    then have "round_to_double (- (of_int k * 2 powr of_int j)) = - (of_int k * 2 powr of_int j)"
      by simp
    then show ?thesis by (simp only: round_to_double_minus neg_equal_iff_equal)
  qed
qed

lemma round_to_double_of_int: "\<bar>k\<bar> < 2 ^ 53 \<Longrightarrow> round_to_double (of_int k) = of_int k"
  using round_to_double_grid [of k 0] by simp

lemma round_to_double_div_pow2:
  "\<bar>k\<bar> < 2 ^ 53 \<Longrightarrow> round_to_double (of_int k / 2 ^ n) = of_int k / 2 ^ n"
  using round_to_double_grid [of k "- int n"] by (simp add: powr_minus powr_realpow field_simps)

lemma round_to_double_eq_0_iff: "round_to_double x = 0 \<longleftrightarrow> x = 0"
proof
  assume z: "round_to_double x = 0"
  show "x = 0"
  proof (rule ccontr)
    assume nz: "x \<noteq> 0"
    have pos: "0 < round_to_double \<bar>x\<bar>"
    proof -
      have "2 powr of_int (binade \<bar>x\<bar>) \<le> round_to_double \<bar>x\<bar>"
        using nz by (intro round_to_double_range) simp
      moreover have "0 < (2::real) powr of_int (binade \<bar>x\<bar>)" by simp
      ultimately show ?thesis by linarith
    qed
    show False
    proof (cases "0 < x")
      case True
      with pos z show False by simp
    next
      case False
      then have "\<bar>x\<bar> = - x" by simp
      with pos z show False by (simp add: round_to_double_minus)
    qed
  qed
next
  assume "x = 0"
  then show "round_to_double x = 0" by (simp add: round_to_double_zero)
qed

lemma float_of_int_0: "float_of_int 0 = 0"
  by (simp add: float_of_int_def round_to_double_zero)

lemma float_of_int_eq_0_iff: "float_of_int k = 0 \<longleftrightarrow> k = 0"
  by (simp add: float_of_int_def round_to_double_eq_0_iff)

lemma float_of_int_exact: "\<bar>k\<bar> < 2 ^ 53 \<Longrightarrow> float_of_int k = of_int k"
  by (simp add: float_of_int_def round_to_double_of_int)

lemma round_to_double_idem: "round_to_double (round_to_double x) = round_to_double x"
proof -
  have pos: "round_to_double (round_to_double y) = round_to_double y" if y: "0 < y" for y
  proof -
    define e where "e = binade y"
    define m where "m = round_half_even (y / ulp y)"
    have rd: "round_to_double y = of_int m * 2 powr of_int (e - 52)"
      using y by (simp add: round_to_double_pos m_def ulp_def e_def)
    have lo: "2 powr of_int e \<le> round_to_double y"
      and hi: "round_to_double y \<le> 2 powr (of_int e + 1)"
      using round_to_double_range [OF y] by (simp_all add: e_def)
    show ?thesis
    proof (cases "round_to_double y = 2 powr (of_int e + 1)")
      case True
      have "round_to_double (of_int 1 * 2 powr of_int (e + 1)) = of_int 1 * 2 powr of_int (e + 1)"
        by (rule round_to_double_grid) simp
      then show ?thesis by (simp add: True)
    next
      case False
      with hi have "real_of_int m * 2 powr of_int (e - 52) < 2 powr (of_int e + 1)"
        unfolding rd by simp
      also have "(2::real) powr (of_int e + 1) = of_int (2 ^ 53) * 2 powr of_int (e - 52)"
        by (simp add: powr_diff powr_add)
      finally have "real_of_int m < of_int (2 ^ 53)" by simp
      then have up: "m < 2 ^ 53" by linarith
      have "0 < (2::real) powr of_int e" by simp
      with lo have "0 < real_of_int m * 2 powr of_int (e - 52)" unfolding rd by linarith
      then have "0 < real_of_int m" by (simp add: zero_less_mult_iff)
      then have "0 < m" by simp
      with up have "\<bar>m\<bar> < 2 ^ 53" by simp
      then show ?thesis unfolding rd by (rule round_to_double_grid)
    qed
  qed
  consider "0 < x" | "x = 0" | "x < 0" by linarith
  then show ?thesis
  proof cases
    case 1
    then show ?thesis by (rule pos)
  next
    case 2
    then show ?thesis by (simp add: round_to_double_zero)
  next
    case 3
    then have "round_to_double (round_to_double (- x)) = round_to_double (- x)"
      by (intro pos) simp
    then show ?thesis by (simp add: round_to_double_minus)
  qed
qed

text \<open>The rounding of a number whose binade and nearest multiple are known.\<close>

lemma round_to_double_eval:
  assumes "2 powr of_int e \<le> x" and "x < 2 powr (of_int e + 1)"
    and "\<bar>x / 2 powr (of_int e - 52) - of_int m\<bar> < 1/2"
  shows "round_to_double x = of_int m * 2 powr (of_int e - 52)"
  using round_to_double_in_binade [OF assms(1,2)] round_half_even_near [OF assms(3)] by simp

text \<open>The literal \<open>0.05\<close>.\<close>

lemma round_to_double_twentieth: "round_to_double (1/20) = 3602879701896397 / 2 ^ 56"
  using round_to_double_eval [of "- 5" "1/20" 7205759403792794]
  by (simp add: powr_minus powr_diff divide_simps)

lemma round_to_double_five_percent: "round_to_double (5/100) = 3602879701896397 / 2 ^ 56"
  using round_to_double_twentieth by simp

subsection \<open>The value of \<open>\<pi>\<close> to twenty digits\<close>

text \<open>
  Machin's formula and the alternating series of the arc tangent enclose \<open>\<pi>\<close>
  between partial sums.
\<close>

lemma arctan_series_bounds:
  assumes "0 < x" and "x \<le> 1"
  shows "(\<Sum>k<2*n. (-1)^k * (1 / real (k*2+1) * x^(k*2+1))) \<le> arctan x"
    and "arctan x \<le> (\<Sum>k<2*n+1. (-1)^k * (1 / real (k*2+1) * x^(k*2+1)))"
proof -
  have ab: "\<bar>x\<bar> \<le> 1" using assms by simp
  have "0 < 1 / real (0*2+1) * x^(0*2+1)" using assms by simp
  then have "(\<Sum>k. (-1)^k * (1 / real (k*2+1) * x^(k*2+1)))
          \<in> {\<Sum>k<2*n. (-1)^k * (1 / real (k*2+1) * x^(k*2+1))
              .. \<Sum>k<2*n+1. (-1)^k * (1 / real (k*2+1) * x^(k*2+1))}"
    using summable_Leibniz(2) [OF zeroseq_arctan_series [OF ab] monoseq_arctan_series [OF ab]]
    by blast
  then show "(\<Sum>k<2*n. (-1)^k * (1 / real (k*2+1) * x^(k*2+1))) \<le> arctan x"
    and "arctan x \<le> (\<Sum>k<2*n+1. (-1)^k * (1 / real (k*2+1) * x^(k*2+1)))"
    unfolding arctan_series [OF ab] by simp_all
qed

lemma machin_sum_lower:
  "(314159265358979323845 / 10 ^ 20 :: real)
     \<le> 16 * (\<Sum>k<2*7. (-1)^k * (1 / real (k*2+1) * (1/5)^(k*2+1)))
        - 4 * (\<Sum>k<2*2+1. (-1)^k * (1 / real (k*2+1) * (1/239)^(k*2+1)))"
  by (simp add: lessThan_nat_numeral power_divide)

lemma machin_sum_upper:
  "16 * (\<Sum>k<2*7+1. (-1)^k * (1 / real (k*2+1) * (1/5)^(k*2+1)))
        - 4 * (\<Sum>k<2*2. (-1)^k * (1 / real (k*2+1) * (1/239)^(k*2+1)))
     \<le> (314159265358979323847 / 10 ^ 20 :: real)"
  by (simp add: lessThan_nat_numeral power_divide)

lemma pi_bounds:
  "314159265358979323845 / 10 ^ 20 \<le> pi" "pi \<le> 314159265358979323847 / 10 ^ 20"
proof -
  have pi: "pi = 16 * arctan (1/5) - 4 * arctan (1/239)"
    using machin by simp
  have l5: "(\<Sum>k<2*7. (-1)^k * (1 / real (k*2+1) * (1/5)^(k*2+1))) \<le> arctan (1/5)"
    by (rule arctan_series_bounds) simp_all
  have u5: "arctan (1/5) \<le> (\<Sum>k<2*7+1. (-1)^k * (1 / real (k*2+1) * (1/5)^(k*2+1)))"
    by (rule arctan_series_bounds) simp_all
  have l239: "(\<Sum>k<2*2. (-1)^k * (1 / real (k*2+1) * (1/239)^(k*2+1))) \<le> arctan (1/239)"
    by (rule arctan_series_bounds) simp_all
  have u239: "arctan (1/239) \<le> (\<Sum>k<2*2+1. (-1)^k * (1 / real (k*2+1) * (1/239)^(k*2+1)))"
    by (rule arctan_series_bounds) simp_all
  show "314159265358979323845 / 10 ^ 20 \<le> pi"
    using machin_sum_lower l5 u239 unfolding pi by linarith
  show "pi \<le> 314159265358979323847 / 10 ^ 20"
    using machin_sum_upper u5 l239 unfolding pi by linarith
qed

subsection \<open>Helper lemmas on the random generator and arrays\<close>

lemma randn_nonneg:
  "0 \<le> n \<Longrightarrow> randn n r = Inr (map (gauss r) [0..<nat n], skip_gauss (nat n) r)"
  by (simp add: randn_def)

lemma normal_zero_scale:
  "0 \<le> n \<Longrightarrow> normal 0 0 n r = Inr (replicate (nat n) 0, skip_gauss (nat n) r)"
  by (simp add: normal_def randn_def map_replicate_const)

lemma normal_ok:
  "0 \<le> n \<Longrightarrow> 0 \<le> scale \<Longrightarrow>
   normal loc scale n r = Inr (map (\<lambda>i. loc + scale * gauss r i) [0..<nat n], skip_gauss (nat n) r)"
  by (simp add: normal_def randn_def comp_def)

lemma product_signbit_nonneg: "\<not> product_signbit a b \<Longrightarrow> 0 \<le> a * b"
  by (auto simp: product_signbit_def not_less mult_nonneg_nonneg mult_nonpos_nonpos
      intro: less_imp_le)

lemma noise_array_ok:
  "0 \<le> n \<Longrightarrow> \<not> product_signbit base_value noise_level \<Longrightarrow>
   noise_array base_value noise_level n r
     = Inr (map (\<lambda>i. 0 + base_value * noise_level * gauss r i) [0..<nat n], skip_gauss (nat n) r)"
  by (simp add: noise_array_def normal_ok product_signbit_nonneg)

lemma noise_array_zero:
  "0 \<le> n \<Longrightarrow> 0 \<le> base_value \<Longrightarrow>
   noise_array base_value 0 n r = Inr (replicate (nat n) 0, skip_gauss (nat n) r)"
  by (simp add: noise_array_def product_signbit_def normal_zero_scale)

lemma noise_array_negative_base:
  "base_value < 0 \<Longrightarrow> noise_array base_value 0 n r = Inl ValueError"
  by (simp add: noise_array_def product_signbit_def)

lemma add_arrays_zero:
  "add_arrays (replicate k v) (replicate k 0) = replicate k v"
  by (simp add: add_arrays_def list_eq_iff_nth_eq)

subsection \<open>Flat trend\<close>

lemma trend_curve_flat:
  "0 \<le> n \<Longrightarrow> trend_type \<noteq> ''linear'' \<Longrightarrow> trend_type \<noteq> ''exponential'' \<Longrightarrow>
   trend_type \<noteq> ''logarithmic'' \<Longrightarrow>
   trend_curve trend_type n base_value trend_strength = Inr (replicate (nat n) base_value)"
  by (simp add: trend_curve_def np_full_def)

text \<open>
  Claim C6, as stated, for every base value: it fails for a negative one. The
  noise scale \<open>base_value * 0\<close> is then the negative zero, which
  \<open>np.random.normal\<close> rejects as it rejects every scale with the sign bit set
  (\<open>ValueError: scale < 0\<close>), and no sequence is returned.
\<close>

theorem flat_trend_negative_base_counterexample:
  "returned (generate_trend_series 5 ''flat'' (- 100) 1 0 \<lparr>gauss = (\<lambda>k. 1), pick = (\<lambda>k. 0)\<rparr>)
     = Inl ValueError"
  by (simp add: returned_def generate_trend_series_def trend_curve_def np_full_def
      noise_array_negative_base)

text \<open>
  Claim C6, amended. For every point count and every base value that is not
  negative, \<open>generate_trend_series\<close> with \<open>noise_level = 0\<close> and a trend type that is
  none of \<open>linear\<close>, \<open>exponential\<close>, \<open>logarithmic\<close> (\<open>flat\<close> among them) returns the
  constant sequence of \<open>base_value\<close>, one entry per point.
\<close>

theorem flat_trend_is_constant:
  assumes "0 \<le> n_points" and "0 \<le> base_value"
    and "trend_type \<noteq> ''linear''" and "trend_type \<noteq> ''exponential''"
    and "trend_type \<noteq> ''logarithmic''"
  shows "generate_trend_series n_points trend_type base_value trend_strength 0 r
           = Inr (replicate (nat n_points) base_value, skip_gauss (nat n_points) r)"
  using assms
  by (simp add: generate_trend_series_def trend_curve_flat noise_array_zero add_arrays_zero)

text \<open>The example of the specification: five points, \<open>flat\<close>, the default base 100.\<close>

theorem flat_trend_is_constant_witness:
  "(0::int) \<le> 5 \<and> (0::real) \<le> 100 \<and> ''flat'' \<noteq> ''linear'' \<and> ''flat'' \<noteq> ''exponential''
   \<and> ''flat'' \<noteq> ''logarithmic''
   \<and> returned (generate_trend_series 5 ''flat'' 100 1 0 \<lparr>gauss = (\<lambda>k. 1), pick = (\<lambda>k. 0)\<rparr>)
       = Inr [100, 100, 100, 100, 100]"
  using flat_trend_is_constant [of 5 100 "''flat''" 1 "\<lparr>gauss = (\<lambda>k. 1), pick = (\<lambda>k. 0)\<rparr>"]
  by (simp add: returned_def numeral_eq_Suc)

subsection \<open>Trend with a seasonal term of amplitude zero\<close>

lemma seasonal_term_zero_amplitude:
  "period \<noteq> 0 \<Longrightarrow> seasonal_term base_value 0 period i = Fin 0"
  by (simp add: seasonal_term_def f64_divide_def float_of_int_eq_0_iff round_to_double_zero)

lemma seasonal_term_zero_period:
  "seasonal_term base_value amplitude 0 i = NaN"
  by (simp add: seasonal_term_def f64_divide_def float_of_int_0)

text \<open>
  Claim C5, as stated, for every seasonal period and base value: it fails for the
  period 0 and for a negative base. With the period 0 the index is divided by zero,
  NumPy's division gives a non-finite value, and every entry of the result is
  \<open>nan\<close>, whatever the amplitude. With a negative base the noise scale
  \<open>base_value * 0\<close> is the negative zero, which \<open>np.random.normal\<close> rejects
  (\<open>ValueError: scale < 0\<close>).
\<close>

theorem trend_seasonal_zero_period_counterexample:
  "returned (generate_trend_seasonal_series 3 100 (1/2) 0 0 0 \<lparr>gauss = (\<lambda>k. 1), pick = (\<lambda>k. 0)\<rparr>)
     = Inr [NaN, NaN, NaN]
   \<and> returned (generate_trend_seasonal_series 3 100 (1/2) 0 0 0 \<lparr>gauss = (\<lambda>k. 1), pick = (\<lambda>k. 0)\<rparr>)
     \<noteq> Inr (map (\<lambda>i. Fin (100 + (1/2) * real i)) [0..<3])
   \<and> returned (generate_trend_seasonal_series 3 (- 100) (1/2) 7 0 0
                 \<lparr>gauss = (\<lambda>k. 1), pick = (\<lambda>k. 0)\<rparr>) = Inl ValueError"
  by (simp add: returned_def generate_trend_seasonal_series_def arange_def noise_array_zero
      noise_array_negative_base seasonal_term_zero_period numeral_eq_Suc upt_rec)

text \<open>
  Claim C5, amended. For every point count, every base value that is not negative,
  every trend strength and every seasonal period other than 0,
  \<open>generate_trend_seasonal_series\<close> with \<open>seasonal_amplitude = 0\<close> and
  \<open>noise_level = 0\<close> returns exactly the linear trend
  \<open>base_value + trend_strength * i\<close> at every index \<open>i\<close>.
\<close>

theorem trend_seasonal_reduces_to_trend:
  assumes "0 \<le> n_points" and "0 \<le> base_value" and "seasonal_period \<noteq> 0"
  shows "generate_trend_seasonal_series n_points base_value trend_strength seasonal_period 0 0 r
           = Inr (map (\<lambda>i. Fin (base_value + trend_strength * real i)) [0..<nat n_points],
                  skip_gauss (nat n_points) r)"
proof -
  have noise: "noise_array base_value 0 n_points r
                 = Inr (replicate (nat n_points) 0, skip_gauss (nat n_points) r)"
    using assms(1,2) by (rule noise_array_zero)
  have elems: "map2 (\<lambda>(tr, s) z. fadd (fadd (Fin tr) s) (Fin z))
                 (zip (map (\<lambda>i. base_value + trend_strength * real i) [0..<nat n_points])
                      (map (seasonal_term base_value 0 seasonal_period) [0..<nat n_points]))
                 (replicate (nat n_points) 0)
               = map (\<lambda>i. Fin (base_value + trend_strength * real i)) [0..<nat n_points]"
    using assms(3) by (simp add: list_eq_iff_nth_eq seasonal_term_zero_amplitude)
  show ?thesis
    unfolding generate_trend_seasonal_series_def Let_def arange_def noise
    by (simp add: elems)
qed

theorem trend_seasonal_reduces_to_trend_witness:
  "(0::int) \<le> 3 \<and> (0::real) \<le> 100 \<and> (7::int) \<noteq> 0
   \<and> returned (generate_trend_seasonal_series 3 100 (1/2) 7 0 0 \<lparr>gauss = (\<lambda>k. 1), pick = (\<lambda>k. 0)\<rparr>)
       = Inr [Fin 100, Fin (100 + 1/2), Fin 101]"
  using trend_seasonal_reduces_to_trend
          [of 3 100 7 "1/2" "\<lparr>gauss = (\<lambda>k. 1), pick = (\<lambda>k. 0)\<rparr>"]
  by (simp add: returned_def numeral_eq_Suc upt_rec)

subsection \<open>The sine at multiples of \<open>np.pi\<close>\<close>

text \<open>
  \<open>np.pi\<close> lies about \<open>1.22e-16\<close> below \<open>\<pi>\<close>, so the sine of \<open>2 * np.pi * t\<close> is
  the sine of a small negative number, not 0.
\<close>

lemma np_pi_value: "np_pi = 884279719003555 / 2 ^ 48"
proof -
  have q: "(2::real) powr (of_int 1 - 52) = 1 / 2 ^ 51"
    by (simp add: powr_minus_divide)
  have lo: "314159265358979323845 / 10 ^ 20 \<le> pi" and hi: "pi \<le> 314159265358979323847 / 10 ^ 20"
    by (rule pi_bounds)+
  have b1: "2 powr of_int 1 \<le> pi" using lo by simp
  have b2: "pi < 2 powr (of_int 1 + 1)" using hi by simp
  have near: "\<bar>pi / 2 powr (of_int 1 - 52) - of_int 7074237752028440\<bar> < 1/2"
    unfolding q using lo hi by simp
  have "round_to_double pi = of_int 7074237752028440 * 2 powr (of_int 1 - 52)"
    by (rule round_to_double_eval [OF b1 b2 near])
  then show ?thesis
    unfolding q np_pi_def by simp
qed

lemma sin_small_bounds:
  fixes y :: real
  assumes "0 < y"
  shows "y - y ^ 3 / 6 \<le> sin y" and "sin y \<le> y"
proof -
  show "sin y \<le> y" using assms by (simp add: sin_x_le_x)
  obtain t where t: "sin y = (\<Sum>m<3. sin_coeff m * y ^ m) + sin (t + 1/2 * real 3 * pi) / fact 3 * y ^ 3"
    using Maclaurin_sin_expansion3 [of 3 y] assms by auto
  have s: "(\<Sum>m<3. sin_coeff m * y ^ m) = y"
    by (simp add: sin_coeff_def lessThan_nat_numeral)
  have "- 1 \<le> sin (t + 1/2 * real 3 * pi)" by simp
  then have "- 1 / 6 * y ^ 3 \<le> sin (t + 1/2 * real 3 * pi) / fact 3 * y ^ 3"
    using assms by (intro mult_right_mono) (simp_all add: fact_numeral field_simps)
  then show "y - y ^ 3 / 6 \<le> sin y" unfolding t s by simp
qed

lemma sin_multiple_of_np_pi:
  "sin (2 * real k * np_pi) = - sin (2 * real k * (pi - np_pi))"
proof -
  have "2 * real k * np_pi = 2 * real k * pi - 2 * real k * (pi - np_pi)"
    by (simp add: algebra_simps)
  then have "sin (2 * real k * np_pi) = sin (2 * real k * pi - 2 * real k * (pi - np_pi))"
    by simp
  also have "\<dots> = - sin (2 * real k * (pi - np_pi))"
    unfolding sin_diff by simp
  finally show ?thesis .
qed

lemma np_pi_gap:
  "112 / 10 ^ 18 \<le> pi - np_pi" "pi - np_pi \<le> 148 / 10 ^ 18"
  using pi_bounds unfolding np_pi_value by simp_all

text \<open>The sine at \<open>2 * np.pi * t\<close> for \<open>t = 1, 2, 3\<close>.\<close>

lemma sin_two_np_pi:
  "- (3 / 2 ^ 53) \<le> sin (2 * real 1 * np_pi)" "sin (2 * real 1 * np_pi) \<le> 0"
proof -
  define y where "y = 2 * real 1 * (pi - np_pi)"
  have y: "0 < y" "y \<le> 3 / 2 ^ 53"
    using np_pi_gap by (simp_all add: y_def)
  have "sin y \<le> y" "0 \<le> sin y"
    using y sin_small_bounds(2) [of y] sin_ge_zero [of y] pi_ge_two by simp_all
  then show "- (3 / 2 ^ 53) \<le> sin (2 * real 1 * np_pi)" "sin (2 * real 1 * np_pi) \<le> 0"
    unfolding sin_multiple_of_np_pi y_def [symmetric] using y by simp_all
qed

lemma sin_small_lower:
  fixes y :: real
  assumes "0 < y" and "y \<le> 1 / 10 ^ 6"
  shows "y * (1 - 1 / 10 ^ 12) \<le> sin y"
proof -
  define c where "c = y * (y * y)"
  have "y * y \<le> (1 / 10 ^ 6) * (1 / 10 ^ 6)"
    using assms by (intro mult_mono) simp_all
  then have "y * (y * y) \<le> y * ((1 / 10 ^ 6) * (1 / 10 ^ 6))"
    using assms(1) by (intro mult_left_mono) simp_all
  then have c1: "c \<le> y / 10 ^ 12" by (simp add: c_def)
  have c0: "0 \<le> c" using assms(1) by (simp add: c_def)
  have "y ^ 3 / 6 = c / 6" by (simp add: c_def power3_eq_cube)
  then have "y ^ 3 / 6 \<le> y / 10 ^ 12" using c0 c1 by linarith
  with sin_small_bounds(1) [OF assms(1)] show ?thesis by (simp add: algebra_simps)
qed

lemma sin_four_six_np_pi:
  assumes "k = 2 \<or> k = 3"
  shows "- (1 / 2 ^ 50) \<le> sin (2 * real k * np_pi)" "sin (2 * real k * np_pi) \<le> - (1 / 2 ^ 51)"
proof -
  define y where "y = 2 * real k * (pi - np_pi)"
  have y: "448 / 10 ^ 18 \<le> y" "y \<le> 888 / 10 ^ 18"
    using np_pi_gap assms by (auto simp: y_def)
  then have pos: "0 < y" and small: "y \<le> 1 / 10 ^ 6" by simp_all
  have "sin y \<le> y" using pos by (rule sin_small_bounds(2))
  moreover have "y * (1 - 1 / 10 ^ 12) \<le> sin y" using pos small by (rule sin_small_lower)
  ultimately have "1 / 2 ^ 51 \<le> sin y" "sin y \<le> 1 / 2 ^ 50"
    using y by simp_all
  then show "- (1 / 2 ^ 50) \<le> sin (2 * real k * np_pi)"
    "sin (2 * real k * np_pi) \<le> - (1 / 2 ^ 51)"
    unfolding sin_multiple_of_np_pi y_def [symmetric] by simp_all
qed

subsection \<open>Yearly seasonal series without noise\<close>

text \<open>The sum \<open>100.0 + 20.0 * s\<close> for a small negative \<open>s\<close>.\<close>

lemma seasonal_sum_same:
  assumes "- (3 / 2 ^ 53) \<le> s" and "s \<le> 0"
  shows "round_to_double (100 + round_to_double (20 * round_to_double s)) = 100"
proof -
  define s' where "s' = round_to_double s"
  define p where "p = round_to_double (20 * s')"
  have "round_to_double (- (3 / 2 ^ 53)) \<le> s'" "s' \<le> round_to_double 0"
    unfolding s'_def using assms by (intro round_to_double_mono, simp)+
  moreover have "round_to_double (- (3 / 2 ^ 53)) = - (3 / 2 ^ 53)"
    using round_to_double_div_pow2 [of "- 3" 53] by simp
  ultimately have s': "- (3 / 2 ^ 53) \<le> s'" "s' \<le> 0"
    by (simp_all add: round_to_double_zero)
  have "round_to_double (- (60 / 2 ^ 53)) \<le> p" "p \<le> round_to_double 0"
    unfolding p_def using s' by (intro round_to_double_mono, simp)+
  moreover have "round_to_double (- (60 / 2 ^ 53)) = - (60 / 2 ^ 53)"
    using round_to_double_div_pow2 [of "- 60" 53] by simp
  ultimately have p: "- (60 / 2 ^ 53) \<le> p" "p \<le> 0"
    by (simp_all add: round_to_double_zero)
  have q: "(2::real) powr (of_int 6 - 52) = 1 / 2 ^ 46"
    by (simp add: powr_minus_divide)
  have b1: "2 powr of_int 6 \<le> 100 + p" using p by simp
  have b2: "100 + p < 2 powr (of_int 6 + 1)" using p by simp
  have near: "\<bar>(100 + p) / 2 powr (of_int 6 - 52) - of_int 7036874417766400\<bar> < 1/2"
    unfolding q using p by simp
  have "round_to_double (100 + p) = of_int 7036874417766400 * 2 powr (of_int 6 - 52)"
    by (rule round_to_double_eval [OF b1 b2 near])
  then show ?thesis
    unfolding q p_def s'_def by simp
qed

lemma seasonal_sum_down:
  assumes "- (1 / 2 ^ 50) \<le> s" and "s \<le> - (1 / 2 ^ 51)"
  shows "round_to_double (100 + round_to_double (20 * round_to_double s)) = 100 - 1 / 2 ^ 46"
proof -
  define s' where "s' = round_to_double s"
  define p where "p = round_to_double (20 * s')"
  have "round_to_double (- (1 / 2 ^ 50)) \<le> s'" "s' \<le> round_to_double (- (1 / 2 ^ 51))"
    unfolding s'_def using assms by (intro round_to_double_mono, simp)+
  moreover have "round_to_double (- (1 / 2 ^ 50)) = - (1 / 2 ^ 50)"
    using round_to_double_div_pow2 [of "- 1" 50] by simp
  moreover have "round_to_double (- (1 / 2 ^ 51)) = - (1 / 2 ^ 51)"
    using round_to_double_div_pow2 [of "- 1" 51] by simp
  ultimately have s': "- (1 / 2 ^ 50) \<le> s'" "s' \<le> - (1 / 2 ^ 51)"
    by simp_all
  have "round_to_double (- (20 / 2 ^ 50)) \<le> p" "p \<le> round_to_double (- (20 / 2 ^ 51))"
    unfolding p_def using s' by (intro round_to_double_mono, simp)+
  moreover have "round_to_double (- (20 / 2 ^ 50)) = - (20 / 2 ^ 50)"
    using round_to_double_div_pow2 [of "- 20" 50] by simp
  moreover have "round_to_double (- (20 / 2 ^ 51)) = - (20 / 2 ^ 51)"
    using round_to_double_div_pow2 [of "- 20" 51] by simp
  ultimately have p: "- (20 / 2 ^ 50) \<le> p" "p \<le> - (20 / 2 ^ 51)"
    by simp_all
  have q: "(2::real) powr (of_int 6 - 52) = 1 / 2 ^ 46"
    by (simp add: powr_minus_divide)
  have b1: "2 powr of_int 6 \<le> 100 + p" using p by simp
  have b2: "100 + p < 2 powr (of_int 6 + 1)" using p by simp
  define u where "u = p * 2 ^ 46"
  have u: "- (5/4) \<le> u" "u \<le> - (5/8)"
    using p by (simp_all add: u_def)
  have "(100 + p) / 2 powr (of_int 6 - 52) - of_int 7036874417766399 = 1 + u"
    unfolding q by (simp add: u_def algebra_simps)
  then have near: "\<bar>(100 + p) / 2 powr (of_int 6 - 52) - of_int 7036874417766399\<bar> < 1/2"
    using u by linarith
  have "round_to_double (100 + p) = of_int 7036874417766399 * 2 powr (of_int 6 - 52)"
    by (rule round_to_double_eval [OF b1 b2 near])
  then show ?thesis
    unfolding q p_def s'_def by simp
qed

text \<open>The literal \<open>0.2\<close> and the product \<open>100.0 * 0.2\<close>.\<close>

lemma round_to_double_fifth: "round_to_double (1/5) = 3602879701896397 / 2 ^ 54"
  using round_to_double_eval [of "- 3" "1/5" 7205759403792794]
  by (simp add: powr_minus powr_diff divide_simps)

lemma default_scale: "round_to_double (100 * round_to_double (2/10)) = 20"
proof -
  define c :: real where "c = 3602879701896397 / 2 ^ 54"
  have fifth: "round_to_double (2/10) = c"
    using round_to_double_fifth by (simp add: c_def)
  have "round_to_double (100 * c) = 20"
    unfolding c_def
    using round_to_double_eval [of 4 "100 * (3602879701896397 / 2 ^ 54)" 5629499534213120]
    by (simp add: powr_minus powr_diff divide_simps)
  then show ?thesis unfolding fifth .
qed

text \<open>The argument of the sine: \<open>2 * np.pi * t / 1\<close> is exact for small \<open>t\<close>.\<close>

lemma yearly_argument:
  assumes "t \<le> 10"
  shows "f64_divide (round_to_double (round_to_double (2 * np_pi) * float_of_int (int t)))
           (float_of_int 1) = Fin (2 * real t * np_pi)"
proof -
  have two: "round_to_double (2 * np_pi) = 884279719003555 / 2 ^ 47"
    unfolding np_pi_value using round_to_double_div_pow2 [of 884279719003555 47] by simp
  have t: "float_of_int (int t) = real t"
    using float_of_int_exact [of "int t"] assms by simp
  have one: "float_of_int 1 = 1"
    using float_of_int_exact [of 1] by simp
  have "\<bar>884279719003555 * int t\<bar> < 2 ^ 53" using assms by simp
  then have "round_to_double (of_int (884279719003555 * int t) / 2 ^ 47)
               = of_int (884279719003555 * int t) / 2 ^ 47"
    by (rule round_to_double_div_pow2)
  then have prod: "round_to_double (884279719003555 / 2 ^ 47 * real t)
                     = 884279719003555 / 2 ^ 47 * real t"
    by (simp add: algebra_simps)
  have "round_to_double (884279719003555 / 2 ^ 47 * real t / 1) = 2 * real t * np_pi"
    using prod unfolding np_pi_value by simp
  then show ?thesis
    unfolding two t one prod f64_divide_def by simp
qed

text \<open>Adding the noise \<open>0.0\<close> changes nothing: a sum of doubles is a double.\<close>

lemma f64_add_zero: "f64_add (f64_add a b) (Fin 0) = f64_add a b"
  by (cases a; cases b) (simp_all add: round_to_double_idem)

lemma seasonal_series_without_noise:
  assumes "0 \<le> n" and "0 \<le> base_value"
  shows "generate_seasonal_series n base_value seasonality amplitude 0 r
           = Inr (map (\<lambda>i. f64_add (Fin base_value)
                            (seasonal_term base_value amplitude
                               (dict_get period_map seasonality 7) i)) [0..<nat n],
                  skip_gauss (nat n) r)"
proof -
  have noise: "noise_array base_value 0 n r = Inr (replicate (nat n) 0, skip_gauss (nat n) r)"
    using assms by (rule noise_array_zero)
  have elems: "map2 (\<lambda>s z. f64_add (f64_add (Fin base_value) s) (Fin z))
                 (map (seasonal_term base_value amplitude (dict_get period_map seasonality 7))
                    [0..<nat n])
                 (replicate (nat n) 0)
               = map (\<lambda>i. f64_add (Fin base_value)
                            (seasonal_term base_value amplitude
                               (dict_get period_map seasonality 7) i)) [0..<nat n]"
    by (simp add: list_eq_iff_nth_eq f64_add_zero)
  show ?thesis
    unfolding generate_seasonal_series_def Let_def arange_def noise
    by (simp add: elems)
qed

lemma yearly_period: "dict_get period_map ''yearly'' 7 = 1"
  by (simp add: dict_get_def period_map_def)

lemma yearly_first_value:
  assumes "round_to_double base_value = base_value"
  shows "f64_add (Fin base_value) (seasonal_term base_value amplitude 1 0) = Fin base_value"
proof -
  have "float_of_int 1 \<noteq> 0" by (simp add: float_of_int_eq_0_iff)
  then have "seasonal_term base_value amplitude 1 0 = Fin 0"
    by (simp add: seasonal_term_def f64_divide_def float_of_int_0 round_to_double_zero)
  then show ?thesis using assms by simp
qed

lemma default_seasonal_value:
  assumes "t \<le> 10"
  shows "f64_add (Fin 100) (seasonal_term 100 (round_to_double (2/10)) 1 t)
           = Fin (round_to_double (100 + round_to_double (20 * round_to_double
                    (sin (2 * real t * np_pi)))))"
  unfolding seasonal_term_def default_scale yearly_argument [OF assms] by simp

lemma default_seasonal_values:
  "f64_add (Fin 100) (seasonal_term 100 (round_to_double (2/10)) 1 0) = Fin 100"
  "f64_add (Fin 100) (seasonal_term 100 (round_to_double (2/10)) 1 1) = Fin 100"
  "f64_add (Fin 100) (seasonal_term 100 (round_to_double (2/10)) 1 2) = Fin (100 - 1 / 2 ^ 46)"
  "f64_add (Fin 100) (seasonal_term 100 (round_to_double (2/10)) 1 3) = Fin (100 - 1 / 2 ^ 46)"
proof -
  have "round_to_double 100 = 100"
    using round_to_double_of_int [of 100] by simp
  then show "f64_add (Fin 100) (seasonal_term 100 (round_to_double (2/10)) 1 0) = Fin 100"
    by (rule yearly_first_value)
  show "f64_add (Fin 100) (seasonal_term 100 (round_to_double (2/10)) 1 1) = Fin 100"
    using seasonal_sum_same [OF sin_two_np_pi] default_seasonal_value [of 1] by simp
  show "f64_add (Fin 100) (seasonal_term 100 (round_to_double (2/10)) 1 2) = Fin (100 - 1 / 2 ^ 46)"
    using seasonal_sum_down [OF sin_four_six_np_pi [of 2]] default_seasonal_value [of 2] by simp
  show "f64_add (Fin 100) (seasonal_term 100 (round_to_double (2/10)) 1 3) = Fin (100 - 1 / 2 ^ 46)"
    using seasonal_sum_down [OF sin_four_six_np_pi [of 3]] default_seasonal_value [of 3] by simp
qed

lemma default_yearly_series:
  "generate_seasonal_series 4 100 ''yearly'' (round_to_double (2/10)) 0 r
     = Inr ([Fin 100, Fin 100, Fin (100 - 1 / 2 ^ 46), Fin (100 - 1 / 2 ^ 46)], skip_gauss 4 r)"
proof -
  have points: "[0..<nat 4] = [0, 1, 2, 3]" by code_simp
  have "generate_seasonal_series 4 100 ''yearly'' (round_to_double (2/10)) 0 r
          = Inr (map (\<lambda>i. f64_add (Fin 100)
                            (seasonal_term 100 (round_to_double (2/10))
                               (dict_get period_map ''yearly'' 7) i)) [0..<nat 4],
                 skip_gauss (nat 4) r)"
    by (rule seasonal_series_without_noise) simp_all
  then show ?thesis
    unfolding yearly_period points using default_seasonal_values by simp
qed

text \<open>
  Claim C4, as stated, on the example of the specification: four points, \<open>yearly\<close>,
  no noise, the defaults \<open>base_value = 100.0\<close> and \<open>amplitude = 0.2\<close>. The result is
  \<open>[100.0, 100.0, 99.99999999999999, 99.99999999999999]\<close> and not \<open>[100.0] * 4\<close>:
  \<open>np.pi\<close> is a double and not \<open>\<pi>\<close>, the sine of \<open>2 * np.pi * t\<close> is about
  \<open>-2.45e-16 * t\<close> and not 0, and from \<open>t = 2\<close> on the seasonal term
  \<open>20.0 * sin(...)\<close> is large enough to move the sum to the next double below 100.
\<close>

theorem seasonal_yearly_not_constant_counterexample:
  "returned (generate_seasonal_series 4 100 ''yearly'' (round_to_double (2/10)) 0
               \<lparr>gauss = (\<lambda>k. 1), pick = (\<lambda>k. 0)\<rparr>)
     = Inr [Fin 100, Fin 100, Fin (100 - 1 / 2 ^ 46), Fin (100 - 1 / 2 ^ 46)]
   \<and> returned (generate_seasonal_series 4 100 ''yearly'' (round_to_double (2/10)) 0
               \<lparr>gauss = (\<lambda>k. 1), pick = (\<lambda>k. 0)\<rparr>)
     \<noteq> Inr [Fin 100, Fin 100, Fin 100, Fin 100]"
  unfolding default_yearly_series returned_def by simp

text \<open>
  Claim C4, amended. For every point count \<open>n \<ge> 0\<close> and every base value that is a
  double and not negative, \<open>generate_seasonal_series\<close> with seasonality \<open>yearly\<close>
  and \<open>noise_level = 0\<close> returns \<open>n\<close> values; the value at index \<open>t\<close> is
  \<open>base_value + (base_value * amplitude) * sin(2 * np.pi * t / 1)\<close> in double
  arithmetic, and the value at index 0 is \<open>base_value\<close>. The later values need not be
  \<open>base_value\<close>: with the defaults \<open>base_value = 100.0\<close> and \<open>amplitude = 0.2\<close>,
  \<open>n_points = 4\<close> gives \<open>[100.0, 100.0, 100 - 2^-46, 100 - 2^-46]\<close>, which prints as
  \<open>[100.0, 100.0, 99.99999999999999, 99.99999999999999]\<close>.
\<close>

theorem seasonal_yearly_without_noise:
  assumes "0 \<le> n" and "0 \<le> base_value" and "round_to_double base_value = base_value"
  shows "(\<exists>xs. returned (generate_seasonal_series n base_value ''yearly'' amplitude 0 r) = Inr xs
            \<and> length xs = nat n
            \<and> (\<forall>i<nat n. xs ! i = f64_add (Fin base_value)
                                     (seasonal_term base_value amplitude 1 i))
            \<and> (0 < n \<longrightarrow> xs ! 0 = Fin base_value))
         \<and> returned (generate_seasonal_series 4 100 ''yearly'' (round_to_double (2/10)) 0 r)
             = Inr [Fin 100, Fin 100, Fin (100 - 1 / 2 ^ 46), Fin (100 - 1 / 2 ^ 46)]"
proof (intro conjI)
  define xs where "xs = map (\<lambda>i. f64_add (Fin base_value)
                                   (seasonal_term base_value amplitude 1 i)) [0..<nat n]"
  have run: "returned (generate_seasonal_series n base_value ''yearly'' amplitude 0 r) = Inr xs"
    using seasonal_series_without_noise [OF assms(1,2), of "''yearly''" amplitude r]
    by (simp add: returned_def yearly_period xs_def)
  have first: "0 < n \<longrightarrow> xs ! 0 = Fin base_value"
    using yearly_first_value [OF assms(3)] by (simp add: xs_def)
  have "length xs = nat n"
    and "\<forall>i<nat n. xs ! i = f64_add (Fin base_value) (seasonal_term base_value amplitude 1 i)"
    by (simp_all add: xs_def)
  with run first
  show "\<exists>xs. returned (generate_seasonal_series n base_value ''yearly'' amplitude 0 r) = Inr xs
            \<and> length xs = nat n
            \<and> (\<forall>i<nat n. xs ! i = f64_add (Fin base_value)
                                     (seasonal_term base_value amplitude 1 i))
            \<and> (0 < n \<longrightarrow> xs ! 0 = Fin base_value)"
    by blast
  show "returned (generate_seasonal_series 4 100 ''yearly'' (round_to_double (2/10)) 0 r)
          = Inr [Fin 100, Fin 100, Fin (100 - 1 / 2 ^ 46), Fin (100 - 1 / 2 ^ 46)]"
    unfolding default_yearly_series returned_def by simp
qed

text \<open>The example of the specification: four points, the default base 100.0.\<close>

theorem seasonal_yearly_without_noise_witness:
  "(0::int) \<le> 4 \<and> (0::real) \<le> 100 \<and> round_to_double 100 = 100
   \<and> (\<exists>xs. returned (generate_seasonal_series 4 100 ''yearly'' (round_to_double (2/10)) 0
                        \<lparr>gauss = (\<lambda>k. 1), pick = (\<lambda>k. 0)\<rparr>) = Inr xs
          \<and> length xs = 4 \<and> xs ! 0 = Fin 100)"
proof -
  have exact: "round_to_double 100 = 100"
    using round_to_double_of_int [of 100] by simp
  have "\<exists>xs. returned (generate_seasonal_series 4 100 ''yearly'' (round_to_double (2/10)) 0
                        \<lparr>gauss = (\<lambda>k. 1), pick = (\<lambda>k. 0)\<rparr>) = Inr xs
          \<and> length xs = nat 4
          \<and> (\<forall>i<nat 4. xs ! i = f64_add (Fin 100)
                                   (seasonal_term 100 (round_to_double (2/10)) 1 i))
          \<and> ((0::int) < 4 \<longrightarrow> xs ! 0 = Fin 100)"
    by (rule conjunct1 [OF seasonal_yearly_without_noise]) (simp_all add: exact)
  then obtain xs where
    "returned (generate_seasonal_series 4 100 ''yearly'' (round_to_double (2/10)) 0
                 \<lparr>gauss = (\<lambda>k. 1), pick = (\<lambda>k. 0)\<rparr>) = Inr xs"
    and "length xs = nat 4" and "(0::int) < 4 \<longrightarrow> xs ! 0 = Fin 100"
    by (elim exE conjE) (rule that; assumption)
  then have "returned (generate_seasonal_series 4 100 ''yearly'' (round_to_double (2/10)) 0
                 \<lparr>gauss = (\<lambda>k. 1), pick = (\<lambda>k. 0)\<rparr>) = Inr xs
             \<and> length xs = 4 \<and> xs ! 0 = Fin 100"
    by simp
  then have "\<exists>xs. returned (generate_seasonal_series 4 100 ''yearly'' (round_to_double (2/10)) 0
                        \<lparr>gauss = (\<lambda>k. 1), pick = (\<lambda>k. 0)\<rparr>) = Inr xs
          \<and> length xs = 4 \<and> xs ! 0 = Fin 100"
    by (rule exI)
  with exact show ?thesis by simp
qed

subsection \<open>Anomaly flags\<close>

lemma inject_anomalies_length_vals:
  "length (fst (inject_anomalies n b m d idxs vals flags r)) = length vals"
  by (induction idxs arbitrary: vals flags r) simp_all

lemma inject_anomalies_length_flags:
  "length (fst (snd (inject_anomalies n b m d idxs vals flags r))) = length flags"
  by (induction idxs arbitrary: vals flags r) simp_all

text \<open>
  The loop invariant: a flag is set after the loop iff it was set before or its
  position is among the indices the loop has seen.
\<close>

lemma inject_anomalies_flags_nth:
  "length flags = nat n \<Longrightarrow> k < nat n \<Longrightarrow>
   fst (snd (inject_anomalies n b m d idxs vals flags r)) ! k
     = (flags ! k \<or> int k \<in> set idxs)"
proof (induction idxs arbitrary: vals flags r)
  case Nil
  then show ?case by simp
next
  case (Cons idx rest)
  show ?case
  proof (cases "0 \<le> idx \<and> idx < n")
    case True
    have "(flags[nat idx := True]) ! k = (flags ! k \<or> int k = idx)"
      using Cons.prems True by (auto simp: nth_list_update)
    with Cons.IH [of "flags[nat idx := True]"] Cons.prems True show ?thesis
      by auto
  next
    case False
    then have "int k \<noteq> idx" using Cons.prems by auto
    with Cons.IH [of flags] Cons.prems False show ?thesis by auto
  qed
qed

lemma count_true_flags:
  assumes len: "length flags = nat n"
    and nth: "\<forall>k<nat n. flags ! k = (int k \<in> set idxs)"
  shows "length (filter id flags) = card {i \<in> set idxs. 0 \<le> i \<and> i < n}"
proof -
  have "length (filter id flags) = card {k. k < nat n \<and> int k \<in> set idxs}"
    using len nth by (auto simp: length_filter_conv_card intro: arg_cong [where f = card])
  also have "{k. k < nat n \<and> int k \<in> set idxs} = nat ` {i \<in> set idxs. 0 \<le> i \<and> i < n}"
  proof (intro set_eqI iffI)
    fix k assume "k \<in> {k. k < nat n \<and> int k \<in> set idxs}"
    then have "int k \<in> {i \<in> set idxs. 0 \<le> i \<and> i < n}" and "k = nat (int k)" by auto
    then show "k \<in> nat ` {i \<in> set idxs. 0 \<le> i \<and> i < n}" by (rule_tac image_eqI)
  next
    fix k assume "k \<in> nat ` {i \<in> set idxs. 0 \<le> i \<and> i < n}"
    then show "k \<in> {k. k < nat n \<and> int k \<in> set idxs}" by auto
  qed
  also have "card (nat ` {i \<in> set idxs. 0 \<le> i \<and> i < n}) = card {i \<in> set idxs. 0 \<le> i \<and> i < n}"
    by (rule card_image) (auto simp: inj_on_def)
  finally show ?thesis .
qed

text \<open>
  Claim C2, as stated: the number of true flags equals the number of in-range
  indices in the supplied list. It fails when the list names an index twice: the
  flag is set once, the list holds two in-range entries.
\<close>

theorem anomaly_flags_repeated_index_counterexample:
  "map_sum id snd (returned (generate_anomaly_series 3 1000000 (Some [1, 1]) (1/2) ''up'' (5/100)
       \<lparr>gauss = (\<lambda>k. 0), pick = (\<lambda>k. 0)\<rparr>)) = Inr [False, True, False]
   \<and> length (filter id [False, True, False])
       \<noteq> length (filter (\<lambda>i. 0 \<le> i \<and> i < 3) [1, 1 :: int])"
  by (simp add: returned_def generate_anomaly_series_def noise_array_def product_signbit_def
      normal_def randn_def arange_def add_arrays_def anomaly_sign_def numeral_eq_Suc upt_rec)

text \<open>
  Claim C2, amended. For every point count \<open>n\<close>, every supplied index list and a
  noise scale \<open>base_value * noise_level\<close> whose sign bit is clear (neither factor
  negative, or both), \<open>generate_anomaly_series\<close> returns without error; values and flags have length
  \<open>n\<close>; the flag at position \<open>k\<close> is true exactly when \<open>k\<close> occurs in the list
  (entries outside \<open>[0, n)\<close> mark nothing); and the number of true flags is the number
  of distinct in-range indices of the list.
\<close>

theorem anomaly_flags_mark_supplied_indices:
  assumes "0 \<le> n_points" and "\<not> product_signbit base_value noise_level"
  shows "\<exists>vals flags r'.
           generate_anomaly_series n_points base_value (Some anomaly_indices) anomaly_magnitude
               anomaly_direction noise_level r = Inr ((vals, flags), r')
           \<and> length vals = nat n_points \<and> length flags = nat n_points
           \<and> (\<forall>k<nat n_points. flags ! k = (int k \<in> set anomaly_indices))
           \<and> length (filter id flags)
               = card {i \<in> set anomaly_indices. 0 \<le> i \<and> i < n_points}"
proof -
  define vals0 where "vals0 = add_arrays
      (map (\<lambda>i. base_value + 0.001 * base_value * real i) (arange n_points))
      (map (\<lambda>i. 0 + base_value * noise_level * gauss r i) [0..<nat n_points])"
  define res where "res = inject_anomalies n_points base_value anomaly_magnitude anomaly_direction
      anomaly_indices vals0 (replicate (nat n_points) False) (skip_gauss (nat n_points) r)"
  have run: "generate_anomaly_series n_points base_value (Some anomaly_indices) anomaly_magnitude
               anomaly_direction noise_level r = Inr ((fst res, fst (snd res)), snd (snd res))"
    using assms
    by (simp add: generate_anomaly_series_def noise_array_ok Let_def res_def vals0_def
        split: prod.splits)
  have lv: "length (fst res) = nat n_points"
    by (simp add: res_def inject_anomalies_length_vals vals0_def add_arrays_def arange_def)
  have lf: "length (fst (snd res)) = nat n_points"
    by (simp add: res_def inject_anomalies_length_flags)
  have nth: "\<forall>k<nat n_points. fst (snd res) ! k = (int k \<in> set anomaly_indices)"
    by (simp add: res_def inject_anomalies_flags_nth)
  from run lv lf nth count_true_flags [OF lf nth] show ?thesis by blast
qed

theorem anomaly_flags_mark_supplied_indices_witness:
  "(0::int) \<le> 3 \<and> \<not> product_signbit 1000000 (5/100)
   \<and> (\<exists>vals flags r'.
         generate_anomaly_series 3 1000000 (Some [1, 7, - 1, 1]) (1/2) ''up'' (5/100)
             \<lparr>gauss = (\<lambda>k. 0), pick = (\<lambda>k. 0)\<rparr> = Inr ((vals, flags), r')
         \<and> length vals = 3 \<and> flags = [False, True, False])"
proof -
  obtain vals flags r' where
    run: "generate_anomaly_series 3 1000000 (Some [1, 7, - 1, 1]) (1/2) ''up'' (5/100)
            \<lparr>gauss = (\<lambda>k. 0), pick = (\<lambda>k. 0)\<rparr> = Inr ((vals, flags), r')"
    and lv: "length vals = nat 3" and lf: "length flags = nat 3"
    and nth: "\<forall>k<nat 3. flags ! k = (int k \<in> set [1, 7, - 1, 1])"
    using anomaly_flags_mark_supplied_indices
            [of 3 1000000 "5/100" "[1, 7, - 1, 1]" "1/2" "''up''" "\<lparr>gauss = (\<lambda>k. 0), pick = (\<lambda>k. 0)\<rparr>"]
    by (auto simp: product_signbit_def)
  have "flags = [False, True, False]"
    using lf nth by (auto simp: list_eq_iff_nth_eq nth_Cons' less_Suc_eq numeral_3_eq_3)
  with run lv show ?thesis by (auto simp: product_signbit_def)
qed

subsection \<open>Correlated series\<close>

lemma str_nat_nonempty: "str_nat n \<noteq> []"
  by (subst str_nat.simps) simp

lemma digit_char_inj: "a < 10 \<Longrightarrow> b < 10 \<Longrightarrow> digit_char a = digit_char b \<Longrightarrow> a = b"
proof -
  assume a: "a < 10" and b: "b < 10" and eq: "digit_char a = digit_char b"
  have "distinct ''0123456789''" by simp
  with a b eq show "a = b"
    unfolding digit_char_def by (simp add: nth_eq_iff_index_eq)
qed

lemma str_nat_digit: "n < 10 \<Longrightarrow> str_nat n = [digit_char n]"
  by (simp add: str_nat.simps)

lemma str_nat_inj: "str_nat n = str_nat m \<Longrightarrow> n = m"
proof (induction n arbitrary: m rule: str_nat.induct)
  case (1 n)
  show ?case
  proof (cases "n < 10")
    case small_n: True
    show ?thesis
    proof (cases "m < 10")
      case True
      with small_n "1.prems" show ?thesis
        by (simp add: str_nat.simps [of n] str_nat.simps [of m] digit_char_inj)
    next
      case False
      with small_n "1.prems" str_nat_nonempty [of "m div 10"] show ?thesis
        by (simp add: str_nat.simps [of n] str_nat.simps [of m] Cons_eq_append_conv)
    qed
  next
    case big_n: False
    show ?thesis
    proof (cases "m < 10")
      case True
      with big_n "1.prems" str_nat_nonempty [of "n div 10"] show ?thesis
        by (simp add: str_nat.simps [of n] str_nat.simps [of m] append_eq_Cons_conv)
    next
      case False
      with big_n "1.prems" have heads: "str_nat (n div 10) = str_nat (m div 10)"
        and last: "digit_char (n mod 10) = digit_char (m mod 10)"
        by (simp_all add: str_nat.simps [of n] str_nat.simps [of m])
      from "1.IH" [OF big_n heads] have "n div 10 = m div 10" .
      moreover from last have "n mod 10 = m mod 10" by (simp add: digit_char_inj)
      ultimately show ?thesis by (metis div_mult_mod_eq)
    qed
  qed
qed

lemma series_name_inj: "series_name i = series_name j \<Longrightarrow> i = j"
  by (simp add: series_name_def str_nat_inj)

lemma update_fresh: "k \<notin> fst ` set al \<Longrightarrow> AList.update k v al = al @ [(k, v)]"
  by (induction al) auto

lemma series_loop_snoc:
  "series_loop body (xs @ [i]) d r =
     (case series_loop body xs d r of
        Inl e \<Rightarrow> Inl e
      | Inr (d1, r1) \<Rightarrow>
          (case body i r1 of
             Inl e \<Rightarrow> Inl e
           | Inr (vals, r2) \<Rightarrow> Inr (AList.update (series_name i) vals d1, r2)))"
  by (induction xs arbitrary: d r) (auto split: sum.splits)

lemma skip_gauss_skip_gauss: "skip_gauss a (skip_gauss b r) = skip_gauss (a + b) r"
  by (simp add: skip_gauss_def add.assoc)

lemma skip_gauss_0: "skip_gauss 0 r = r"
  by (simp add: skip_gauss_def)

lemma gauss_skip_gauss: "gauss (skip_gauss k r) i = gauss r (i + k)"
  by (simp add: skip_gauss_def)

lemma series_loop_closed_form:
  "series_loop (\<lambda>i r. Inr (f i r, skip_gauss n r)) [0..<k] [] r
     = Inr (map (\<lambda>i. (series_name i, f i (skip_gauss (i * n) r))) [0..<k],
            skip_gauss (k * n) r)"
proof (induction k)
  case 0
  show ?case by (simp add: skip_gauss_0)
next
  case (Suc k)
  have fresh: "series_name k
        \<notin> fst ` set (map (\<lambda>i. (series_name i, f i (skip_gauss (i * n) r))) [0..<k])"
    by (auto simp: image_iff dest: series_name_inj)
  show ?case
    by (simp add: series_loop_snoc Suc.IH update_fresh [OF fresh] skip_gauss_skip_gauss)
qed

lemma linspace_ok:
  "0 \<le> n \<Longrightarrow> linspace a b n
     = Inr (map (\<lambda>i. if n = 1 then a else a + real i * ((b - a) / real_of_int (n - 1))) [0..<nat n])"
  by (auto simp: linspace_def)

lemma series_values_ok:
  assumes "0 \<le> n" and "length common = nat n" and "length individual = nat n"
  shows "series_values base c nl n common individual
           = Inr (map (\<lambda>t. fadd (Fin (base + (if n = 1 then 0
                                               else real t * (base * 0.3 / real_of_int (n - 1)))))
                              (fmul (fmul (fadd (Fin (c * common ! t))
                                                (fmul (np_sqrt (1 - c ^ 2)) (Fin (individual ! t))))
                                          (Fin base))
                                    (Fin nl)))
                      [0..<nat n])"
  using assms
  by (simp add: series_values_def linspace_ok list_eq_iff_nth_eq)

lemma make_series_ok:
  assumes "0 \<le> n" and "length common = nat n"
  shows "make_series bvs c nl n common i r
           = Inr (map (\<lambda>t. fadd (Fin (series_base bvs i + (if n = 1 then 0
                                  else real t * (series_base bvs i * 0.3 / real_of_int (n - 1)))))
                              (fmul (fmul (fadd (Fin (c * common ! t))
                                                (fmul (np_sqrt (1 - c ^ 2)) (Fin (gauss r t))))
                                          (Fin (series_base bvs i)))
                                    (Fin nl)))
                      [0..<nat n], skip_gauss (nat n) r)"
  using assms
  by (simp add: make_series_def randn_def series_values_ok Let_def cong: map_cong)


lemma code_value_is_spec_value:
  "fadd (Fin (base + (if n = 1 then 0 else real t * (base * 0.3 / real_of_int (n - 1)))))
        (fmul (fmul (fadd (Fin (c * cm)) (fmul (np_sqrt (1 - c ^ 2)) (Fin z))) (Fin base)) (Fin nl))
   = spec_series_value base c nl n cm z t"
  by (simp add: spec_series_value_def ramp_def np_sqrt_def algebra_simps)

lemma series_base_default:
  "i < nat n_series \<Longrightarrow> series_base (map (\<lambda>i. 100 + real i * 50) [0..<nat n_series]) i = 100 + real i * 50"
  by (simp add: series_base_def)

lemma multivariate_closed_form:
  assumes "0 \<le> n_points"
  shows "generate_multivariate_series n_series n_points base_values_arg correlation noise_level r
           = Inr (map (\<lambda>i. (series_name i,
                    map (\<lambda>t. spec_series_value
                                (series_base (case base_values_arg of
                                                None \<Rightarrow> map (\<lambda>i. 100 + real i * 50) [0..<nat n_series]
                                              | Some bs \<Rightarrow> bs) i)
                                correlation noise_level n_points
                                (gauss r t) (gauss r ((i + 1) * nat n_points + t)) t)
                        [0..<nat n_points]))
                    [0..<nat n_series],
                  skip_gauss ((nat n_series + 1) * nat n_points) r)"
proof -
  define bvs where "bvs = (case base_values_arg of
      None \<Rightarrow> map (\<lambda>i. 100 + real i * 50) [0..<nat n_series] | Some bs \<Rightarrow> bs)"
  define common where "common = map (gauss r) [0..<nat n_points]"
  define f where "f = (\<lambda>i (r'::rng). map (\<lambda>t. spec_series_value (series_base bvs i) correlation noise_level
      n_points (common ! t) (gauss r' t) t) [0..<nat n_points])"
  have body: "make_series bvs correlation noise_level n_points common
                = (\<lambda>i r'. Inr (f i r', skip_gauss (nat n_points) r'))"
    using assms
    by (intro ext) (simp add: make_series_ok common_def f_def code_value_is_spec_value)
  have "generate_multivariate_series n_series n_points base_values_arg correlation noise_level r
          = series_loop (make_series bvs correlation noise_level n_points common)
              [0..<nat n_series] [] (skip_gauss (nat n_points) r)"
    using assms
    by (simp add: generate_multivariate_series_def randn_def bvs_def common_def)
  also have "\<dots> = Inr (map (\<lambda>i. (series_name i, f i (skip_gauss (i * nat n_points) (skip_gauss (nat n_points) r))))
                       [0..<nat n_series],
                     skip_gauss (nat n_series * nat n_points) (skip_gauss (nat n_points) r))"
    unfolding body by (rule series_loop_closed_form)
  also have "\<dots> = Inr (map (\<lambda>i. (series_name i,
                    map (\<lambda>t. spec_series_value (series_base bvs i) correlation noise_level n_points
                                (gauss r t) (gauss r ((i + 1) * nat n_points + t)) t)
                        [0..<nat n_points]))
                    [0..<nat n_series],
                  skip_gauss ((nat n_series + 1) * nat n_points) r)"
    by (simp add: f_def common_def skip_gauss_skip_gauss gauss_skip_gauss add.commute
        cong: map_cong)
  finally show ?thesis unfolding bvs_def .
qed


lemma map_of_series:
  "i < k \<Longrightarrow> map_of (map (\<lambda>i. (series_name i, g i)) [0..<k]) (series_name i) = Some (g i)"
proof -
  assume "i < k"
  have "distinct (map fst (map (\<lambda>i. (series_name i, g i)) [0..<k]))"
    by (auto simp: distinct_map comp_def inj_on_def dest: series_name_inj)
  moreover have "(series_name i, g i) \<in> set (map (\<lambda>i. (series_name i, g i)) [0..<k])"
    using \<open>i < k\<close> by auto
  ultimately show ?thesis by (rule map_of_is_SomeI)
qed

text \<open>The ramp runs from 0 to its peak.\<close>

lemma ramp_endpoints:
  "ramp peak n 0 = 0" "2 \<le> n \<Longrightarrow> ramp peak n (nat n - 1) = peak"
  by (simp_all add: ramp_def of_nat_diff)

text \<open>
  Claim C7. One call of \<open>generate_multivariate_series\<close> draws one common
  component, the first \<open>n_points\<close> variates of the call (\<open>gauss r t\<close> for entry
  \<open>t\<close> of every series), and one individual component per series, series \<open>i\<close>
  taking the stretch of \<open>n_points\<close> variates that starts at \<open>(i + 1) * n_points\<close>;
  the generator is left \<open>(n_series + 1) * n_points\<close> variates further. Entry \<open>t\<close> of
  series \<open>i\<close> is the specification's blend: base, plus the ramp from 0 to
  \<open>0.3 * base\<close>, plus \<open>base * noise_level\<close> times
  \<open>correlation * common + sqrt (1 - correlation\<^sup>2) * individual\<close>.
\<close>

theorem multivariate_one_common_component:
  assumes "0 \<le> n_points"
  shows "\<exists>d. generate_multivariate_series n_series n_points base_values correlation noise_level r
               = Inr (d, skip_gauss ((nat n_series + 1) * nat n_points) r)
           \<and> map fst d = map series_name [0..<nat n_series]
           \<and> (\<forall>i<nat n_series.
                 map_of d (series_name i)
                   = Some (map (\<lambda>t. spec_series_value
                                  (case base_values of
                                     None \<Rightarrow> 100 + real i * 50
                                   | Some bs \<Rightarrow> series_base bs i)
                                  correlation noise_level n_points
                                  (gauss r t) (gauss r ((i + 1) * nat n_points + t)) t)
                            [0..<nat n_points]))"
proof -
  have base: "series_base (case base_values of
                 None \<Rightarrow> map (\<lambda>i. 100 + real i * 50) [0..<nat n_series] | Some bs \<Rightarrow> bs) i
              = (case base_values of None \<Rightarrow> 100 + real i * 50 | Some bs \<Rightarrow> series_base bs i)"
    if "i < nat n_series" for i
    using that by (simp add: series_base_default split: option.splits)
  show ?thesis
    unfolding multivariate_closed_form [OF assms]
    by (intro exI conjI allI impI, rule refl) (simp_all add: comp_def map_of_series base)
qed

theorem multivariate_one_common_component_witness:
  "(0::int) \<le> 2
   \<and> (\<exists>d. generate_multivariate_series 2 2 None (1/2) (1/10) \<lparr>gauss = real, pick = (\<lambda>k. 0)\<rparr>
             = Inr (d, skip_gauss ((nat 2 + 1) * nat 2) \<lparr>gauss = real, pick = (\<lambda>k. 0)\<rparr>)
         \<and> map fst d = map series_name [0..<nat 2]
         \<and> (\<forall>i<nat 2.
               map_of d (series_name i)
                 = Some (map (\<lambda>t. spec_series_value
                                (case None of
                                   None \<Rightarrow> 100 + real i * 50
                                 | Some bs \<Rightarrow> series_base bs i)
                                (1/2) (1/10) 2
                                (gauss \<lparr>gauss = real, pick = (\<lambda>k. 0)\<rparr> t)
                                (gauss \<lparr>gauss = real, pick = (\<lambda>k. 0)\<rparr> ((i + 1) * nat 2 + t)) t)
                          [0..<nat 2])))"
  using multivariate_one_common_component
          [of 2 2 None "1/2" "1/10" "\<lparr>gauss = real, pick = (\<lambda>k. 0)\<rparr>"]
  by simp

text \<open>
  Claim C10. With an explicit \<open>base_values\<close> list shorter than \<open>n_series\<close> the call
  returns; the dictionary has \<open>n_series\<close> entries under distinct names; and every
  series whose index is at least the length of the list is built on the base 100.
\<close>

theorem multivariate_short_base_values:
  assumes "0 \<le> n_points" and "int (length bs) < n_series"
  shows "\<exists>d r'. generate_multivariate_series n_series n_points (Some bs) correlation noise_level r
                  = Inr (d, r')
           \<and> length d = nat n_series \<and> distinct (map fst d)
           \<and> (\<forall>i. length bs \<le> i \<and> i < nat n_series \<longrightarrow>
                 map_of d (series_name i)
                   = Some (map (\<lambda>t. spec_series_value 100 correlation noise_level n_points
                                  (gauss r t) (gauss r ((i + 1) * nat n_points + t)) t)
                            [0..<nat n_points]))"
  unfolding multivariate_closed_form [OF assms(1)]
  by (intro exI conjI allI impI, rule refl)
     (auto simp: comp_def map_of_series series_base_def distinct_map inj_on_def
           dest: series_name_inj)

theorem multivariate_short_base_values_witness:
  "(0::int) \<le> 2 \<and> int (length [250::real]) < 3
   \<and> (\<exists>d r'. generate_multivariate_series 3 2 (Some [250]) 0 (1/10) \<lparr>gauss = (\<lambda>k. 1), pick = (\<lambda>k. 0)\<rparr>
                = Inr (d, r')
         \<and> length d = 3
         \<and> map_of d ''series_1'' = Some [Fin 110, Fin 140]
         \<and> map_of d ''series_2'' = Some [Fin 110, Fin 140])"
proof -
  obtain d r' where run: "generate_multivariate_series 3 2 (Some [250]) 0 (1/10)
        \<lparr>gauss = (\<lambda>k. 1), pick = (\<lambda>k. 0)\<rparr> = Inr (d, r')"
    and len: "length d = nat 3"
    and entries: "\<forall>i. length [250::real] \<le> i \<and> i < nat 3 \<longrightarrow>
        map_of d (series_name i)
          = Some (map (\<lambda>t. spec_series_value 100 0 (1/10) 2
                         (gauss \<lparr>gauss = (\<lambda>k. 1), pick = (\<lambda>k. 0)\<rparr> t)
                         (gauss \<lparr>gauss = (\<lambda>k. 1), pick = (\<lambda>k. 0)\<rparr> ((i + 1) * nat 2 + t)) t)
                    [0..<nat 2])"
    using multivariate_short_base_values
            [of 2 "[250]" 3 0 "1/10" "\<lparr>gauss = (\<lambda>k. 1), pick = (\<lambda>k. 0)\<rparr>"]
    by auto
  have names: "series_name (Suc 0) = ''series_1''" "series_name 2 = ''series_2''"
    by (simp_all add: series_name_def str_nat_digit digit_char_def)
  have points: "[0..<2::nat] = [0, 1]"
    by code_simp
  have vals: "map (spec_series_value 100 0 (1/10) 2 1 1) [0..<2] = [Fin 110, Fin 140]"
    unfolding points by (simp add: spec_series_value_def ramp_def np_sqrt_def)
  from entries [rule_format, of 1] entries [rule_format, of 2]
  have "map_of d ''series_1'' = Some [Fin 110, Fin 140]"
    and "map_of d ''series_2'' = Some [Fin 110, Fin 140]"
    by (simp_all add: names vals)
  with run len show ?thesis by auto
qed

subsection \<open>Covariate bundle\<close>

lemma temperature_list_ok:
  "\<exists>xs. temperature_list ts r = Inr (xs, skip_gauss (length ts) r) \<and> length xs = length ts"
proof (induction ts arbitrary: r)
  case Nil
  show ?case by (simp add: skip_gauss_0)
next
  case (Cons t ts)
  from Cons.IH [of "skip_gauss 1 r"] obtain xs where
    "temperature_list ts (skip_gauss 1 r) = Inr (xs, skip_gauss (length ts) (skip_gauss 1 r))"
    and "length xs = length ts" by blast
  then show ?case
    by (simp add: normal1_def skip_gauss_skip_gauss)
qed

lemma set_update_subset: "set (AList.update k v al) \<subseteq> insert (k, v) (set al)"
  by (induction al) auto

lemma update_preserves:
  "P k v \<Longrightarrow> \<forall>(a, b) \<in> set al. P a b \<Longrightarrow> \<forall>(a, b) \<in> set (AList.update k v al). P a b"
  using set_update_subset [of k v al] by auto

lemma temperature_dict_ok:
  assumes "\<forall>(sid, xs) \<in> set d. length xs = nat total_len"
  shows "\<exists>d' r'. temperature_dict total_len ids d r = Inr (d', r')
           \<and> fst ` set d' = fst ` set d \<union> set ids
           \<and> (\<forall>(sid, xs) \<in> set d'. length xs = nat total_len)"
  using assms
proof (induction ids arbitrary: d r)
  case Nil
  then show ?case by simp
next
  case (Cons sid ids)
  obtain xs where run: "temperature_list (arange total_len) r
                          = Inr (xs, skip_gauss (length (arange total_len)) r)"
    and len: "length xs = length (arange total_len)"
    using temperature_list_ok by blast
  have inv: "\<forall>(s, ys) \<in> set (AList.update sid xs d). length ys = nat total_len"
    using Cons.prems len by (intro update_preserves) (simp_all add: arange_def)
  from Cons.IH [OF inv] show ?case
    by (auto simp: run AList.dom_update)
qed


lemma fold_update_keys:
  "fst ` set (fold (\<lambda>x d. AList.update (key x) (val x) d) xs d0) = fst ` set d0 \<union> key ` set xs"
  by (induction xs arbitrary: d0) (auto simp: AList.dom_update)

lemma fold_update_preserves:
  "\<forall>x \<in> set xs. P (key x) (val x) \<Longrightarrow> \<forall>(a, b) \<in> set d0. P a b \<Longrightarrow>
   \<forall>(a, b) \<in> set (fold (\<lambda>x d. AList.update (key x) (val x) d) xs d0). P a b"
proof (induction xs arbitrary: d0)
  case Nil
  then show ?case by simp
next
  case (Cons x xs)
  have "\<forall>(a, b) \<in> set (AList.update (key x) (val x) d0). P a b"
    using Cons.prems by (intro update_preserves) simp_all
  with Cons show ?case by simp
qed

lemma dict_of_enumerate_keys: "fst ` set (dict_of_enumerate f ids) = set ids"
proof -
  have "dict_of_enumerate f ids
          = fold (\<lambda>x d. AList.update (snd x) (f (fst x) (snd x)) d) (enumerate 0 ids) []"
    by (simp add: dict_of_enumerate_def case_prod_unfold)
  moreover have "snd ` set (enumerate 0 ids) = set ids"
    by (metis list.set_map map_snd_enumerate)
  ultimately show ?thesis
    by (simp add: fold_update_keys)
qed

text \<open>
  Claim C8. For every historical point count, identifier list, horizon flag and
  horizon length, \<open>generate_covariates\<close> returns a bundle whose four sub-mappings
  each hold one named covariate, keyed by exactly the supplied identifiers; every
  sequence of the two dynamic sub-mappings has \<open>n_points + horizon_len\<close> entries when
  \<open>include_horizon\<close> is true and \<open>n_points\<close> otherwise (none when that number is
  negative, \<open>range\<close> being empty then).
\<close>

theorem covariates_cover_every_identifier:
  "\<exists>cov r'.
     generate_covariates n_points series_ids include_horizon horizon_len r = Inr (cov, r')
     \<and> map fst (static_numerical_covariates cov) = [''base_price'']
     \<and> map fst (static_categorical_covariates cov) = [''category'']
     \<and> map fst (dynamic_numerical_covariates cov) = [''temperature'']
     \<and> map fst (dynamic_categorical_covariates cov) = [''day_of_week'']
     \<and> (\<forall>(name, m) \<in> set (static_numerical_covariates cov). fst ` set m = set series_ids)
     \<and> (\<forall>(name, m) \<in> set (static_categorical_covariates cov). fst ` set m = set series_ids)
     \<and> (\<forall>(name, m) \<in> set (dynamic_numerical_covariates cov).
           fst ` set m = set series_ids
           \<and> (\<forall>(sid, xs) \<in> set m.
                 length xs = nat (if include_horizon then n_points + horizon_len else n_points)))
     \<and> (\<forall>(name, m) \<in> set (dynamic_categorical_covariates cov).
           fst ` set m = set series_ids
           \<and> (\<forall>(sid, xs) \<in> set m.
                 length xs = nat (if include_horizon then n_points + horizon_len else n_points)))"
proof -
  define total_len where "total_len = (if include_horizon then n_points + horizon_len else n_points)"
  define dow where "dow = fold (\<lambda>sid d. AList.update sid (map (\<lambda>t. days ! (t mod 7)) (arange total_len)) d)
      series_ids []"
  obtain temperature r' where
    run: "temperature_dict total_len series_ids [] r = Inr (temperature, r')"
    and keys: "fst ` set temperature = set series_ids"
    and lens: "\<forall>(sid, xs) \<in> set temperature. length xs = nat total_len"
    using temperature_dict_ok [of "[]" total_len series_ids r] by auto
  define cov where "cov = \<lparr>static_numerical_covariates =
                     [(''base_price'', dict_of_enumerate (\<lambda>i sid. 100 + real i * 50) series_ids)],
                   static_categorical_covariates =
                     [(''category'',
                       dict_of_enumerate (\<lambda>i sid. categories ! (i mod length categories)) series_ids)],
                   dynamic_numerical_covariates = [(''temperature'', temperature)],
                   dynamic_categorical_covariates = [(''day_of_week'', dow)]\<rparr>"
  have dow_keys: "fst ` set dow = set series_ids"
    unfolding dow_def by (simp add: fold_update_keys)
  have dow_lens: "\<forall>(sid, xs) \<in> set dow. length xs = nat total_len"
    unfolding dow_def by (rule fold_update_preserves) (simp_all add: arange_def)
  have result: "generate_covariates n_points series_ids include_horizon horizon_len r = Inr (cov, r')"
    using run by (simp add: generate_covariates_def Let_def total_len_def [symmetric] dow_def cov_def)
  show ?thesis
    unfolding total_len_def [symmetric]
  proof (intro exI [of _ cov] exI [of _ r'] conjI)
    show "generate_covariates n_points series_ids include_horizon horizon_len r = Inr (cov, r')"
      by (rule result)
  qed (use keys lens dow_keys dow_lens in \<open>simp_all add: cov_def dict_of_enumerate_keys\<close>)
qed

theorem covariates_cover_every_identifier_witness:
  "\<exists>cov r'.
     generate_covariates 2 [''FR'', ''BE''] True 1 \<lparr>gauss = (\<lambda>k. 0), pick = (\<lambda>k. 0)\<rparr> = Inr (cov, r')
     \<and> map fst (static_numerical_covariates cov) = [''base_price'']
     \<and> map fst (static_categorical_covariates cov) = [''category'']
     \<and> map fst (dynamic_numerical_covariates cov) = [''temperature'']
     \<and> map fst (dynamic_categorical_covariates cov) = [''day_of_week'']
     \<and> (\<forall>(name, m) \<in> set (static_numerical_covariates cov). fst ` set m = {''FR'', ''BE''})
     \<and> (\<forall>(name, m) \<in> set (static_categorical_covariates cov). fst ` set m = {''FR'', ''BE''})
     \<and> (\<forall>(name, m) \<in> set (dynamic_numerical_covariates cov).
           fst ` set m = {''FR'', ''BE''} \<and> (\<forall>(sid, xs) \<in> set m. length xs = 3))
     \<and> (\<forall>(name, m) \<in> set (dynamic_categorical_covariates cov).
           fst ` set m = {''FR'', ''BE''} \<and> (\<forall>(sid, xs) \<in> set m. length xs = 3))"
  using covariates_cover_every_identifier
          [of 2 "[''FR'', ''BE'']" True 1 "\<lparr>gauss = (\<lambda>k. 0), pick = (\<lambda>k. 0)\<rparr>"]
  by simp

subsection \<open>Timestamps\<close>

lemma stamp_error: "stamp start delta i = Inl e \<Longrightarrow> e = OverflowError"
  by (auto simp: stamp_def timedelta_mul_def datetime_add_def Let_def
      split: sum.splits if_splits prod.splits)

lemma timestamps_loop_all_ok:
  "\<forall>i \<in> set xs. stamp start delta i = Inr (g i) \<Longrightarrow>
   timestamps_loop start delta xs acc = Inr (acc @ map g xs)"
  by (induction xs arbitrary: acc) simp_all

lemma timestamps_loop_error:
  "timestamps_loop start delta xs acc = Inl e \<Longrightarrow> e = OverflowError"
  by (induction xs arbitrary: acc) (auto split: sum.splits dest: stamp_error)


lemma days_before_month_nonneg: "1 \<le> m \<Longrightarrow> m \<le> 12 \<Longrightarrow> 0 \<le> days_before_month y m"
proof -
  assume "1 \<le> m" and "m \<le> 12"
  then have "m = 1 \<or> m = 2 \<or> m = 3 \<or> m = 4 \<or> m = 5 \<or> m = 6 \<or> m = 7 \<or> m = 8 \<or> m = 9
             \<or> m = 10 \<or> m = 11 \<or> m = 12" by arith
  then show ?thesis
    by (elim disjE) (simp_all add: days_before_month_def)
qed

lemma days_before_year_nonneg: "1 \<le> y \<Longrightarrow> 0 \<le> days_before_year y"
  by (simp add: days_before_year_def Let_def)

lemma ymd2ord_pos:
  "valid_datetime d \<Longrightarrow> 1 \<le> ymd2ord (year d) (month d) (day d)"
  using days_before_month_nonneg [of "month d" "year d"] days_before_year_nonneg [of "year d"]
  by (simp add: valid_datetime_def ymd2ord_def)

lemma datetime_add_bounds_delta:
  assumes valid: "valid_datetime d" and nonneg: "0 \<le> delta"
    and ok: "datetime_add d delta = Inr d'"
  shows "delta div us_per_day \<le> 3652059"
proof -
  define total where "total = ymd2ord (year d) (month d) (day d) * us_per_day
      + ((hour d * 3600 + minute d * 60 + second d) * 1000000 + microsecond d) + delta"
  have days: "total div us_per_day \<le> 3652059"
    using ok by (auto simp: datetime_add_def Let_def total_def split: if_splits)
  have "delta \<le> total"
  proof -
    have "0 \<le> ymd2ord (year d) (month d) (day d) * us_per_day"
      using ymd2ord_pos [OF valid] by (simp add: us_per_day_def)
    moreover have "0 \<le> (hour d * 3600 + minute d * 60 + second d) * 1000000 + microsecond d"
      using valid by (simp add: valid_datetime_def)
    ultimately show ?thesis by (simp add: total_def)
  qed
  then have "delta div us_per_day \<le> total div us_per_day"
    by (simp add: zdiv_mono1 us_per_day_def)
  with days show ?thesis by simp
qed

lemma stamp_ok:
  assumes "valid_datetime start" and "0 \<le> delta"
    and "datetime_add start (int i * delta) = Inr d"
  shows "stamp start delta i = Inr (strftime d)"
proof -
  have nonneg: "0 \<le> int i * delta" using assms(2) by simp
  have "(int i * delta) div us_per_day \<le> 3652059"
    by (rule datetime_add_bounds_delta [OF assms(1) nonneg assms(3)])
  moreover have "0 \<le> (int i * delta) div us_per_day"
    using nonneg by (simp add: us_per_day_def pos_imp_zdiv_nonneg_iff)
  ultimately have "timedelta_mul (int i) delta = Inr (int i * delta)"
    by (simp add: timedelta_mul_def)
  with assms(3) show ?thesis by (simp add: stamp_def)
qed

lemma freq_delta_cases:
  "dict_get freq_delta freq (timedelta 0 1)
     = (if freq = ''H'' then timedelta 0 1
        else if freq = ''D'' then timedelta 1 0
        else if freq = ''W'' then timedelta 7 0
        else if freq = ''M'' then timedelta 30 0
        else timedelta 0 1)"
  by (simp add: dict_get_def freq_delta_def)

lemma freq_delta_nonneg: "0 \<le> dict_get freq_delta freq (timedelta 0 1)"
  unfolding freq_delta_cases by (simp add: timedelta_def us_per_day_def)


lemma str_nat_step: "10 \<le> n \<Longrightarrow> str_nat n = str_nat (n div 10) @ [digit_char (n mod 10)]"
  by (subst str_nat.simps) simp



text \<open>
  From the year 1000 on the string has the twenty characters of the pattern
  \<open>MM/DD/YYYY, hh:mm AM/PM\<close>: two digits each for month, day, hour and minute, four
  for the year. Before the year 1000 the year has fewer digits and the string is
  shorter.
\<close>

lemma length_str_nat_2: "n < 100 \<Longrightarrow> length (str_nat n) \<le> 2"
  by (cases "n < 10") (simp_all add: str_nat_digit str_nat_step)

lemma length_str_nat_4: "1000 \<le> n \<Longrightarrow> n < 10000 \<Longrightarrow> length (str_nat n) = 4"
proof -
  assume n: "1000 \<le> n" "n < 10000"
  then have "10 \<le> n" "10 \<le> n div 10" "10 \<le> n div 10 div 10" "n div 10 div 10 div 10 < 10"
    by simp_all
  then show ?thesis
    by (simp add: str_nat_step [of n] str_nat_step [of "n div 10"]
        str_nat_step [of "n div 10 div 10"] str_nat_digit)
qed

lemma length_str_nat_short: "n < 1000 \<Longrightarrow> length (str_nat n) \<le> 3"
proof -
  assume n: "n < 1000"
  show ?thesis
  proof (cases "n < 100")
    case True
    then show ?thesis using length_str_nat_2 [of n] by simp
  next
    case False
    then have "10 \<le> n" "n div 10 < 100" using n by simp_all
    then show ?thesis
      using length_str_nat_2 [of "n div 10"] by (simp add: str_nat_step [of n])
  qed
qed

lemma length_zero_pad: "length (str_nat (nat k)) \<le> w \<Longrightarrow> length (zero_pad w k) = w"
  by (simp add: zero_pad_def Let_def)

lemma days_in_month_le: "1 \<le> m \<Longrightarrow> m \<le> 12 \<Longrightarrow> days_in_month y m \<le> 31"
proof -
  assume "1 \<le> m" and "m \<le> 12"
  then have "m = 1 \<or> m = 2 \<or> m = 3 \<or> m = 4 \<or> m = 5 \<or> m = 6 \<or> m = 7 \<or> m = 8 \<or> m = 9
             \<or> m = 10 \<or> m = 11 \<or> m = 12" by arith
  then show ?thesis
    by (elim disjE) (simp_all add: days_in_month_def)
qed

lemma strftime_length_fields:
  assumes v: "valid_datetime d"
  shows "length (strftime d) = 16 + length (str_nat (nat (year d)))"
proof -
  have "day d \<le> 31"
    using v days_in_month_le [of "month d" "year d"] by (simp add: valid_datetime_def)
  moreover have "hour12 (hour d) \<le> 12" "0 < hour12 (hour d)"
  proof -
    have "0 \<le> hour d mod 12" "hour d mod 12 < 12" by simp_all
    then show "hour12 (hour d) \<le> 12" "0 < hour12 (hour d)"
      by (auto simp: hour12_def)
  qed
  ultimately have small: "nat (month d) < 100" "nat (day d) < 100"
      "nat (hour12 (hour d)) < 100" "nat (minute d) < 100"
    using v unfolding valid_datetime_def by linarith+
  have "length (zero_pad 2 (month d)) = 2" "length (zero_pad 2 (day d)) = 2"
    "length (zero_pad 2 (hour12 (hour d))) = 2" "length (zero_pad 2 (minute d)) = 2"
    by (rule length_zero_pad, rule length_str_nat_2, rule small)+
  then show ?thesis
    by (simp add: strftime_def)
qed

lemma strftime_length:
  "valid_datetime d \<Longrightarrow> 1000 \<le> year d \<Longrightarrow> length (strftime d) = 20"
proof -
  assume v: "valid_datetime d" and y: "1000 \<le> year d"
  have "1000 \<le> nat (year d)" "nat (year d) < 10000"
    using v y unfolding valid_datetime_def by linarith+
  then have "length (str_nat (nat (year d))) = 4" by (rule length_str_nat_4)
  with strftime_length_fields [OF v] show ?thesis by simp
qed

lemma strftime_length_short:
  "valid_datetime d \<Longrightarrow> year d < 1000 \<Longrightarrow> length (strftime d) < 20"
proof -
  assume v: "valid_datetime d" and y: "year d < 1000"
  have "nat (year d) < 1000" using y by simp
  then have "length (str_nat (nat (year d))) \<le> 3" by (rule length_str_nat_short)
  with strftime_length_fields [OF v] show ?thesis by simp
qed

subsection \<open>Lengths of the generated sequences\<close>

lemma trend_curve_length:
  "trend_curve trend_type n base_value trend_strength = Inr xs \<Longrightarrow> length xs = nat n"
  by (auto simp: trend_curve_def np_full_def arange_def Let_def split: if_splits)

lemma trend_curve_ok:
  "0 \<le> n \<Longrightarrow> \<exists>xs. trend_curve trend_type n base_value trend_strength = Inr xs"
  by (simp add: trend_curve_def np_full_def Let_def)

lemma trend_series_length:
  assumes "0 \<le> n" and "\<not> product_signbit base_value noise_level"
  shows "\<exists>xs r'. generate_trend_series n trend_type base_value trend_strength noise_level r
                   = Inr (xs, r') \<and> length xs = nat n"
proof -
  obtain trend where t: "trend_curve trend_type n base_value trend_strength = Inr trend"
    using trend_curve_ok [OF assms(1)] by blast
  with trend_curve_length have "length trend = nat n" by blast
  with t assms show ?thesis
    by (simp add: generate_trend_series_def noise_array_ok add_arrays_def)
qed

lemma seasonal_series_length:
  assumes "0 \<le> n" and "\<not> product_signbit base_value noise_level"
  shows "\<exists>xs r'. generate_seasonal_series n base_value seasonality amplitude noise_level r
                   = Inr (xs, r') \<and> length xs = nat n"
  using assms by (simp add: generate_seasonal_series_def noise_array_ok arange_def Let_def)

lemma trend_seasonal_series_length:
  assumes "0 \<le> n" and "\<not> product_signbit base_value noise_level"
  shows "\<exists>xs r'. generate_trend_seasonal_series n base_value trend_strength seasonal_period
                     seasonal_amplitude noise_level r = Inr (xs, r') \<and> length xs = nat n"
  using assms by (simp add: generate_trend_seasonal_series_def noise_array_ok arange_def Let_def)

lemma multivariate_series_length:
  assumes "0 \<le> n"
  shows "\<exists>d r'. generate_multivariate_series n_series n base_values correlation noise_level r
                   = Inr (d, r')
           \<and> length d = nat n_series \<and> (\<forall>(name, xs) \<in> set d. length xs = nat n)"
  unfolding multivariate_closed_form [OF assms]
  by (intro exI conjI, rule refl) auto

lemma anomaly_series_given:
  assumes "0 \<le> n" and "\<not> product_signbit base_value noise_level"
  shows "\<exists>vals flags r'.
           generate_anomaly_series n base_value (Some idxs) anomaly_magnitude anomaly_direction
               noise_level r = Inr ((vals, flags), r')
           \<and> length vals = nat n \<and> length flags = nat n"
proof -
  define vals0 where "vals0 = add_arrays
      (map (\<lambda>i. base_value + 0.001 * base_value * real i) (arange n))
      (map (\<lambda>i. 0 + base_value * noise_level * gauss r i) [0..<nat n])"
  define res where "res = inject_anomalies n base_value anomaly_magnitude anomaly_direction
      idxs vals0 (replicate (nat n) False) (skip_gauss (nat n) r)"
  have "generate_anomaly_series n base_value (Some idxs) anomaly_magnitude
               anomaly_direction noise_level r = Inr ((fst res, fst (snd res)), snd (snd res))"
    using assms
    by (simp add: generate_anomaly_series_def noise_array_ok Let_def res_def vals0_def
        split: prod.splits)
  moreover have "length (fst res) = nat n"
    by (simp add: res_def inject_anomalies_length_vals vals0_def add_arrays_def arange_def)
  moreover have "length (fst (snd res)) = nat n"
    by (simp add: res_def inject_anomalies_length_flags)
  ultimately show ?thesis by blast
qed

lemma choice_ok:
  "pool \<noteq> [] \<Longrightarrow> 0 \<le> k \<Longrightarrow> k \<le> int (length pool) \<Longrightarrow>
   choice pool k r = Inr (sample_distinct (nat k) pool r)"
  by (simp add: choice_def)

lemma rounded_product_bound:
  assumes "0 \<le> a" and "a \<le> b" and "0 \<le> c" and "c \<le> d"
  shows "0 \<le> round_to_double (a * c)" and "round_to_double (a * c) \<le> 2 * (b * d)"
proof -
  have p: "0 \<le> a * c" using assms by simp
  then show "0 \<le> round_to_double (a * c)" by (rule round_to_double_nonneg)
  have "a * c \<le> b * d" using assms by (intro mult_mono) simp_all
  moreover have "\<bar>round_to_double (a * c) - a * c\<bar> \<le> \<bar>a * c\<bar> / 2 ^ 53"
    by (rule round_to_double_relative_error)
  moreover have "\<bar>a * c\<bar> / 2 ^ 53 \<le> a * c" using p by simp
  ultimately show "round_to_double (a * c) \<le> 2 * (b * d)" using p by linarith
qed

lemma float_of_int_bounds:
  assumes "0 \<le> n"
  shows "0 \<le> float_of_int n" and "float_of_int n \<le> 2 * of_int n"
proof -
  show "0 \<le> float_of_int n"
    unfolding float_of_int_def using assms by (intro round_to_double_nonneg) simp
  have "\<bar>float_of_int n - of_int n\<bar> \<le> \<bar>real_of_int n\<bar> / 2 ^ 53"
    unfolding float_of_int_def by (rule round_to_double_relative_error)
  moreover have "\<bar>real_of_int n\<bar> / 2 ^ 53 \<le> of_int n" using assms by simp
  ultimately show "float_of_int n \<le> 2 * of_int n" using assms by linarith
qed

lemma py_int_five_percent:
  "1 \<le> n \<Longrightarrow>
   max 1 (py_int (round_to_double (float_of_int n * round_to_double (5/100)))) \<le> n"
proof -
  assume n: "1 \<le> n"
  define x where "x = round_to_double (float_of_int n * round_to_double (5/100))"
  have a: "0 \<le> float_of_int n" "float_of_int n \<le> 2 * of_int n"
    using float_of_int_bounds [of n] n by simp_all
  have c: "0 \<le> round_to_double (5/100)" "round_to_double (5/100) \<le> 1/10"
    by (simp_all add: round_to_double_twentieth)
  have "0 \<le> x" "x \<le> 2 * ((2 * of_int n) * (1/10))"
    unfolding x_def by (rule rounded_product_bound [OF a c])+
  then have "0 \<le> x" "x \<le> of_int n" using n by simp_all
  then have "\<lfloor>x\<rfloor> \<le> n" by linarith
  with \<open>0 \<le> x\<close> show ?thesis using n by (simp add: py_int_def x_def)
qed

lemma anomaly_series_random:
  assumes "1 \<le> n" and "\<not> product_signbit base_value noise_level"
  shows "\<exists>vals flags r'.
           generate_anomaly_series n base_value None anomaly_magnitude anomaly_direction
               noise_level r = Inr ((vals, flags), r')
           \<and> length vals = nat n \<and> length flags = nat n"
proof -
  define r1 where "r1 = skip_gauss (nat n) r"
  define k where "k = max 1 (py_int (round_to_double (float_of_int n * round_to_double (5/100))))"
  define vals0 where "vals0 = add_arrays
      (map (\<lambda>i. base_value + 0.001 * base_value * real i) (arange n))
      (map (\<lambda>i. 0 + base_value * noise_level * gauss r i) [0..<nat n])"
  define picked where "picked = sample_distinct (nat k) (map int (arange n)) r1"
  define res where "res = inject_anomalies n base_value anomaly_magnitude anomaly_direction
      (fst picked) vals0 (replicate (nat n) False) (snd picked)"
  have k: "0 \<le> k" "k \<le> int (length (map int (arange n)))"
    using py_int_five_percent [OF assms(1)] assms(1) by (simp_all add: k_def arange_def)
  have pool: "map int (arange n) \<noteq> []"
    using assms(1) by (simp add: arange_def)
  have pick: "choice (map int (arange n)) k r1 = Inr (fst picked, snd picked)"
    using choice_ok [OF pool k] by (simp add: picked_def)
  have "generate_anomaly_series n base_value None anomaly_magnitude
               anomaly_direction noise_level r = Inr ((fst res, fst (snd res)), snd (snd res))"
    using assms pick
    by (simp add: generate_anomaly_series_def noise_array_ok Let_def res_def vals0_def r1_def k_def
        split: prod.splits)
  moreover have "length (fst res) = nat n"
    by (simp add: res_def inject_anomalies_length_vals vals0_def add_arrays_def arange_def)
  moreover have "length (fst (snd res)) = nat n"
    by (simp add: res_def inject_anomalies_length_flags)
  ultimately show ?thesis by blast
qed

lemma timestamps_loop_length:
  "timestamps_loop start delta xs acc = Inr ts \<Longrightarrow> length ts = length acc + length xs"
  by (induction xs arbitrary: acc) (auto split: sum.splits)

lemma generate_timestamps_length:
  "generate_timestamps now n start_date freq = Inr ts \<Longrightarrow> length ts = nat n"
  by (auto simp: generate_timestamps_def arange_def split: sum.splits option.splits
      dest: timestamps_loop_length)


lemma generate_timestamps_ok:
  assumes "valid_datetime T0"
    and "\<forall>i<nat n. \<exists>d. datetime_add T0 (int i * dict_get freq_delta freq (timedelta 0 1)) = Inr d"
  shows "\<exists>ts. generate_timestamps now n (Some T0) freq = Inr ts \<and> length ts = nat n"
proof -
  define step where "step = dict_get freq_delta freq (timedelta 0 1)"
  define d where "d = (\<lambda>i. projr (datetime_add T0 (int i * step)))"
  have "0 \<le> step" using freq_delta_nonneg [of freq] by (simp add: step_def)
  moreover have "\<forall>i<nat n. datetime_add T0 (int i * step) = Inr (d i)"
    using assms(2) by (auto simp: d_def step_def)
  ultimately have "\<forall>i \<in> set (arange n). stamp T0 step i = Inr (strftime (d i))"
    using assms(1) by (auto simp: arange_def intro: stamp_ok)
  then have "timestamps_loop T0 step (arange n) [] = Inr ([] @ map (\<lambda>i. strftime (d i)) (arange n))"
    by (rule timestamps_loop_all_ok)
  then show ?thesis
    by (simp add: generate_timestamps_def step_def arange_def)
qed

lemma ad_payload_plain:
  assumes "0 \<le> n" and "0 \<le> base_value"
    and "generate_timestamps now n None ''H'' = Inr ts"
  shows "\<exists>ps r'. generate_ad_payload_data now n base_value False anomaly_ratio r = Inr (ps, r')
           \<and> length ps = nat n"
proof -
  have scale: "\<not> product_signbit base_value 0.03"
    using assms(2) by (simp add: product_signbit_def)
  obtain vals flags r' where
    run: "generate_anomaly_series n base_value (Some []) 0.5 ''both'' 0.03 r = Inr ((vals, flags), r')"
    and len: "length vals = nat n"
    using anomaly_series_given [OF assms(1) scale] by blast
  have "length ts = nat n"
    using assms(3) by (rule generate_timestamps_length)
  with run len assms(3) show ?thesis
    by (simp add: generate_ad_payload_data_def)
qed

lemma ad_payload_injected:
  assumes "1 \<le> n" and "0 \<le> base_value"
    and "generate_timestamps now n None ''H'' = Inr ts"
    and "max 1 (py_int (round_to_double (float_of_int n * anomaly_ratio))) \<le> n - n div 2"
  shows "\<exists>ps r'. generate_ad_payload_data now n base_value True anomaly_ratio r = Inr (ps, r')
           \<and> length ps = nat n"
proof -
  define k where "k = max 1 (py_int (round_to_double (float_of_int n * anomaly_ratio)))"
  define picked where "picked = sample_distinct (nat k) (py_range (n div 2) n) r"
  have nonneg: "0 \<le> n" using assms(1) by simp
  have scale: "\<not> product_signbit base_value 0.03"
    using assms(2) by (simp add: product_signbit_def)
  have pool: "py_range (n div 2) n \<noteq> []"
    using assms(1) by (simp add: py_range_def)
  have k: "0 \<le> k" "k \<le> int (length (py_range (n div 2) n))"
    using assms(4) by (simp_all add: k_def py_range_def)
  have pick: "choice (py_range (n div 2) n) k r = Inr (fst picked, snd picked)"
    using choice_ok [OF pool k] by (simp add: picked_def)
  obtain vals flags r' where
    run: "generate_anomaly_series n base_value (Some (fst picked)) 0.4 ''both'' 0.03 (snd picked)
            = Inr ((vals, flags), r')"
    and len: "length vals = nat n"
    using anomaly_series_given [OF nonneg scale] by blast
  have "length ts = nat n"
    using assms(3) by (rule generate_timestamps_length)
  with run len assms(3) pick show ?thesis
    by (simp add: generate_ad_payload_data_def k_def case_prod_unfold)
qed


lemma covariates_dynamic_lengths:
  "\<exists>cov r'.
     generate_covariates n_points series_ids include_horizon horizon_len r = Inr (cov, r')
     \<and> (\<forall>(name, m) \<in> set (dynamic_numerical_covariates cov). \<forall>(sid, xs) \<in> set m.
           length xs = nat (if include_horizon then n_points + horizon_len else n_points))
     \<and> (\<forall>(name, m) \<in> set (dynamic_categorical_covariates cov). \<forall>(sid, xs) \<in> set m.
           length xs = nat (if include_horizon then n_points + horizon_len else n_points))"
proof -
  define total_len where "total_len = (if include_horizon then n_points + horizon_len else n_points)"
  define dow where "dow = fold (\<lambda>sid d. AList.update sid (map (\<lambda>t. days ! (t mod 7)) (arange total_len)) d)
      series_ids []"
  obtain temperature r' where
    run: "temperature_dict total_len series_ids [] r = Inr (temperature, r')"
    and lens: "\<forall>(sid, xs) \<in> set temperature. length xs = nat total_len"
    using temperature_dict_ok [of "[]" total_len series_ids r] by auto
  have dow_lens: "\<forall>(sid, xs) \<in> set dow. length xs = nat total_len"
    unfolding dow_def by (rule fold_update_preserves) (simp_all add: arange_def)
  show ?thesis
    unfolding total_len_def [symmetric]
    using run lens dow_lens
    by (simp add: generate_covariates_def Let_def total_len_def [symmetric] dow_def)
qed

text \<open>
  Claim C3, as stated, for every point count: no sequence is returned where the
  call raises. \<open>np.random.normal\<close> rejects the negative noise scale of a negative
  base (\<open>ValueError: scale < 0\<close>). And for the count 0 with the anomaly positions
  drawn at random (\<open>anomaly_indices\<close> omitted, the default),
  \<open>max(1, int(0 * 0.05))\<close> asks for one position of an empty population, and
  \<open>np.random.choice\<close> raises \<open>ValueError\<close>.
\<close>

theorem series_not_returned_counterexample:
  "generate_trend_series 5 ''linear'' (- 100) 1 (1/10) \<lparr>gauss = (\<lambda>k. 0), pick = (\<lambda>k. 0)\<rparr>
     = Inl ValueError
   \<and> generate_anomaly_series 0 1000000 None (1/2) ''both'' (5/100)
         \<lparr>gauss = (\<lambda>k. 0), pick = (\<lambda>k. 0)\<rparr> = Inl ValueError"
  by (simp add: generate_trend_series_def trend_curve_def generate_anomaly_series_def
      noise_array_def product_signbit_def normal_def randn_def arange_def choice_def py_int_def)

text \<open>
  Claim C3, amended. For every point count \<open>n \<ge> 0\<close> each series-producing function
  returns sequences of exactly \<open>n\<close> entries, under the conditions on which it
  returns at all:
  \<^item> trend, seasonal, trend-and-seasonal series and the anomaly series with
    supplied indices: the sign bit of the noise scale \<open>base_value * noise_level\<close>
    is clear (neither factor negative, or both);
    the anomaly series with random positions: moreover \<open>n \<ge> 1\<close>;
  \<^item> every series of the correlated family: no condition;
  \<^item> timestamps: every \<open>start + i * step\<close>, \<open>i < n\<close>, is a date of the calendar;
  \<^item> the payload records: \<open>base_value \<ge> 0\<close> and the hourly timestamps of the call
    exist; with injected anomalies moreover \<open>n \<ge> 1\<close> and the number of anomalies
    \<open>max(1, int(n * anomaly_ratio))\<close> is at most the size \<open>n - n // 2\<close> of the second
    half.
\<close>

theorem series_have_requested_length:
  assumes "0 \<le> n"
  shows
    "(\<not> product_signbit base_value noise_level \<longrightarrow>
        (\<exists>xs r'. generate_trend_series n trend_type base_value trend_strength noise_level r
                    = Inr (xs, r') \<and> length xs = nat n)
        \<and> (\<exists>xs r'. generate_seasonal_series n base_value seasonality amplitude noise_level r
                    = Inr (xs, r') \<and> length xs = nat n)
        \<and> (\<exists>xs r'. generate_trend_seasonal_series n base_value trend_strength seasonal_period
                      amplitude noise_level r = Inr (xs, r') \<and> length xs = nat n)
        \<and> (\<exists>vals flags r'.
              generate_anomaly_series n base_value (Some anomaly_indices) anomaly_magnitude
                anomaly_direction noise_level r = Inr ((vals, flags), r')
              \<and> length vals = nat n \<and> length flags = nat n)
        \<and> (1 \<le> n \<longrightarrow>
              (\<exists>vals flags r'.
                 generate_anomaly_series n base_value None anomaly_magnitude
                   anomaly_direction noise_level r = Inr ((vals, flags), r')
                 \<and> length vals = nat n \<and> length flags = nat n)))
     \<and> (\<exists>d r'. generate_multivariate_series n_series n base_values correlation noise_level r
                   = Inr (d, r')
            \<and> length d = nat n_series \<and> (\<forall>(name, xs) \<in> set d. length xs = nat n))
     \<and> (valid_datetime start_date
          \<and> (\<forall>i<nat n. \<exists>d. datetime_add start_date
                                (int i * dict_get freq_delta freq (timedelta 0 1)) = Inr d)
          \<longrightarrow> (\<exists>ts. generate_timestamps now n (Some start_date) freq = Inr ts
                     \<and> length ts = nat n))
     \<and> (0 \<le> base_value \<and> generate_timestamps now n None ''H'' = Inr stamps \<longrightarrow>
          (\<exists>ps r'. generate_ad_payload_data now n base_value False anomaly_ratio r = Inr (ps, r')
                     \<and> length ps = nat n)
          \<and> (1 \<le> n \<and> max 1 (py_int (round_to_double (float_of_int n * anomaly_ratio))) \<le> n - n div 2 \<longrightarrow>
                (\<exists>ps r'. generate_ad_payload_data now n base_value True anomaly_ratio r
                             = Inr (ps, r') \<and> length ps = nat n)))"
proof (intro conjI impI)
  assume scale: "\<not> product_signbit base_value noise_level"
  show "\<exists>xs r'. generate_trend_series n trend_type base_value trend_strength noise_level r
                    = Inr (xs, r') \<and> length xs = nat n"
    by (rule trend_series_length [OF assms scale])
  show "\<exists>xs r'. generate_seasonal_series n base_value seasonality amplitude noise_level r
                    = Inr (xs, r') \<and> length xs = nat n"
    by (rule seasonal_series_length [OF assms scale])
  show "\<exists>xs r'. generate_trend_seasonal_series n base_value trend_strength seasonal_period
                      amplitude noise_level r = Inr (xs, r') \<and> length xs = nat n"
    by (rule trend_seasonal_series_length [OF assms scale])
  show "\<exists>vals flags r'.
              generate_anomaly_series n base_value (Some anomaly_indices) anomaly_magnitude
                anomaly_direction noise_level r = Inr ((vals, flags), r')
              \<and> length vals = nat n \<and> length flags = nat n"
    by (rule anomaly_series_given [OF assms scale])
  assume "1 \<le> n"
  then show "\<exists>vals flags r'.
                 generate_anomaly_series n base_value None anomaly_magnitude
                   anomaly_direction noise_level r = Inr ((vals, flags), r')
                 \<and> length vals = nat n \<and> length flags = nat n"
    using scale by (rule anomaly_series_random)
next
  show "\<exists>d r'. generate_multivariate_series n_series n base_values correlation noise_level r
                   = Inr (d, r')
            \<and> length d = nat n_series \<and> (\<forall>(name, xs) \<in> set d. length xs = nat n)"
    by (rule multivariate_series_length [OF assms])
next
  assume "valid_datetime start_date
          \<and> (\<forall>i<nat n. \<exists>d. datetime_add start_date
                                (int i * dict_get freq_delta freq (timedelta 0 1)) = Inr d)"
  then show "\<exists>ts. generate_timestamps now n (Some start_date) freq = Inr ts \<and> length ts = nat n"
    by (intro generate_timestamps_ok) simp_all
next
  assume "0 \<le> base_value \<and> generate_timestamps now n None ''H'' = Inr stamps"
  then have base: "0 \<le> base_value" and ts: "generate_timestamps now n None ''H'' = Inr stamps"
    by simp_all
  show "\<exists>ps r'. generate_ad_payload_data now n base_value False anomaly_ratio r = Inr (ps, r')
                     \<and> length ps = nat n"
    by (rule ad_payload_plain [OF assms base ts])
  assume "1 \<le> n \<and> max 1 (py_int (round_to_double (float_of_int n * anomaly_ratio))) \<le> n - n div 2"
  then show "\<exists>ps r'. generate_ad_payload_data now n base_value True anomaly_ratio r
                             = Inr (ps, r') \<and> length ps = nat n"
    using base ts by (intro ad_payload_injected) simp_all
qed

theorem series_have_requested_length_witness:
  "(0::int) \<le> 2 \<and> (1::int) \<le> 2 \<and> \<not> product_signbit 100 (1/10) \<and> (0::real) \<le> 100
   \<and> valid_datetime
         \<lparr>year = 2024, month = 1, day = 31, hour = 23, minute = 5, second = 0, microsecond = 0\<rparr>
   \<and> generate_timestamps
         \<lparr>year = 2026, month = 11, day = 3, hour = 9, minute = 30, second = 0, microsecond = 0\<rparr>
         2 None ''H'' = Inr [''10/04/2026, 09:30 AM'', ''10/04/2026, 10:30 AM'']
   \<and> max 1 (py_int (round_to_double (float_of_int 2 * round_to_double (5/100))))
         \<le> 2 - 2 div (2::int)
   \<and> (\<exists>xs r'. generate_trend_series 2 ''exponential'' 100 1 (1/10)
                   \<lparr>gauss = (\<lambda>k. 1), pick = (\<lambda>k. 0)\<rparr> = Inr (xs, r') \<and> length xs = 2)
   \<and> (\<exists>vals flags r'. generate_anomaly_series 2 100 None (1/2) ''both'' (1/10)
                   \<lparr>gauss = (\<lambda>k. 1), pick = (\<lambda>k. 0)\<rparr> = Inr ((vals, flags), r')
          \<and> length vals = 2 \<and> length flags = 2)
   \<and> (\<exists>ts. generate_timestamps
                \<lparr>year = 2026, month = 11, day = 3, hour = 9, minute = 30, second = 0, microsecond = 0\<rparr>
                2 (Some \<lparr>year = 2024, month = 1, day = 31, hour = 23, minute = 5, second = 0,
                          microsecond = 0\<rparr>) ''D'' = Inr ts \<and> length ts = 2)
   \<and> (\<exists>ps r'. generate_ad_payload_data
                \<lparr>year = 2026, month = 11, day = 3, hour = 9, minute = 30, second = 0, microsecond = 0\<rparr>
                2 100 True (round_to_double (5/100)) \<lparr>gauss = (\<lambda>k. 1), pick = (\<lambda>k. 0)\<rparr> = Inr (ps, r')
          \<and> length ps = 2)"
proof -
  define NOW where "NOW = \<lparr>year = 2026, month = 11, day = 3, hour = 9, minute = 30, second = 0,
                          microsecond = 0\<rparr>"
  define START where "START = \<lparr>year = 2026, month = 10, day = 4, hour = 9, minute = 30, second = 0,
                          microsecond = 0\<rparr>"
  define T0 where "T0 = \<lparr>year = 2024, month = 1, day = 31, hour = 23, minute = 5, second = 0,
                         microsecond = 0\<rparr>"
  define r0 where "r0 = \<lparr>gauss = (\<lambda>k. 1::real), pick = (\<lambda>k. 0::nat)\<rparr>"
  have valid: "valid_datetime T0"
    by (simp add: T0_def valid_datetime_def days_in_month_def)
  have start: "datetime_add NOW (- timedelta 30 0) = Inr START"
    by (simp add: NOW_def START_def datetime_add_def timedelta_def us_per_day_def ymd2ord_def
        ord2ymd_def days_before_year_def days_before_month_def is_leap_def Let_def)
  have points: "arange 2 = [0, 1]"
    unfolding arange_def by code_simp
  have stamp0: "stamp START (timedelta 0 1) 0 = Inr ''10/04/2026, 09:30 AM''"
    by (simp add: START_def stamp_def timedelta_mul_def datetime_add_def timedelta_def
        us_per_day_def ymd2ord_def ord2ymd_def days_before_year_def days_before_month_def
        is_leap_def Let_def strftime_def zero_pad_def hour12_def str_nat_step str_nat_digit
        digit_char_def)
  have stamp1: "stamp START (timedelta 0 1) (Suc 0) = Inr ''10/04/2026, 10:30 AM''"
    by (simp add: START_def stamp_def timedelta_mul_def datetime_add_def timedelta_def
        us_per_day_def ymd2ord_def ord2ymd_def days_before_year_def days_before_month_def
        is_leap_def Let_def strftime_def zero_pad_def hour12_def str_nat_step str_nat_digit
        digit_char_def)
  have hourly: "generate_timestamps NOW 2 None ''H''
                  = Inr [''10/04/2026, 09:30 AM'', ''10/04/2026, 10:30 AM'']"
    by (simp add: generate_timestamps_def start points freq_delta_cases stamp0 stamp1)
  have first: "datetime_add T0 (int 0 * timedelta 1 0) = Inr T0"
    by (simp add: T0_def datetime_add_def timedelta_def us_per_day_def ymd2ord_def ord2ymd_def
        days_before_year_def days_before_month_def is_leap_def Let_def)
  have second: "datetime_add T0 (int 1 * timedelta 1 0)
                  = Inr \<lparr>year = 2024, month = 2, day = 1, hour = 23, minute = 5, second = 0,
                         microsecond = 0\<rparr>"
    by (simp add: T0_def datetime_add_def timedelta_def us_per_day_def ymd2ord_def
        ord2ymd_def days_before_year_def days_before_month_def is_leap_def Let_def)
  have daily: "\<forall>i<nat 2. \<exists>d. datetime_add T0
                                (int i * dict_get freq_delta ''D'' (timedelta 0 1)) = Inr d"
  proof (intro allI impI)
    fix i :: nat assume "i < nat 2"
    then have "i = 0 \<or> i = 1" by auto
    then show "\<exists>d. datetime_add T0 (int i * dict_get freq_delta ''D'' (timedelta 0 1)) = Inr d"
      using first second by (auto simp: freq_delta_cases)
  qed
  have sample: "max 1 (py_int (round_to_double (float_of_int 2 * round_to_double (5/100))))
                  \<le> 2 - 2 div (2::int)"
  proof -
    define c :: real where "c = 3602879701896397 / 2 ^ 55"
    have product: "float_of_int 2 * round_to_double (5/100) = c"
      using float_of_int_exact [of 2] by (simp add: round_to_double_twentieth c_def)
    have exact: "round_to_double c = c"
      unfolding c_def using round_to_double_div_pow2 [of 3602879701896397 55] by simp
    have "0 \<le> c" "c < 1" by (simp_all add: c_def)
    then show ?thesis unfolding product exact by (simp add: py_int_def)
  qed
  note facts = series_have_requested_length
      [where n = 2 and base_value = 100 and noise_level = "1/10" and trend_type = "''exponential''"
         and trend_strength = 1 and r = r0 and anomaly_magnitude = "1/2"
         and anomaly_direction = "''both''" and anomaly_ratio = "round_to_double (5/100)"
         and now = NOW and start_date = T0 and freq = "''D''"
         and stamps = "[''10/04/2026, 09:30 AM'', ''10/04/2026, 10:30 AM'']"]
  from facts valid hourly daily sample show ?thesis
    unfolding NOW_def T0_def r0_def by (simp add: product_signbit_def)
qed

subsection \<open>The point count zero\<close>

lemma forecast_list_ok:
  "\<exists>xs. forecast_list ts r = Inr (xs, skip_gauss (length ts) r) \<and> length xs = length ts"
proof (induction ts arbitrary: r)
  case Nil
  show ?case by (simp add: skip_gauss_0)
next
  case (Cons t ts)
  from Cons.IH [of "skip_gauss 1 r"] obtain xs where
    "forecast_list ts (skip_gauss 1 r) = Inr (xs, skip_gauss (length ts) (skip_gauss 1 r))"
    and "length xs = length ts" by blast
  then show ?case
    by (simp add: normal1_def skip_gauss_skip_gauss)
qed

lemma forecast_dict_ok:
  assumes "\<forall>(sid, xs) \<in> set d. length xs = nat total_len"
  shows "\<exists>d' r'. forecast_dict total_len ids d r = Inr (d', r')
           \<and> (\<forall>(sid, xs) \<in> set d'. length xs = nat total_len)"
  using assms
proof (induction ids arbitrary: d r)
  case Nil
  then show ?case by simp
next
  case (Cons sid ids)
  obtain xs where run: "forecast_list (arange total_len) r
                          = Inr (xs, skip_gauss (length (arange total_len)) r)"
    and len: "length xs = length (arange total_len)"
    using forecast_list_ok by blast
  have inv: "\<forall>(s, ys) \<in> set (AList.update sid xs d). length ys = nat total_len"
    using Cons.prems len by (intro update_preserves) (simp_all add: arange_def)
  from Cons.IH [OF inv] show ?case
    by (simp add: run)
qed

lemma price_loop_no_days:
  assumes "\<forall>(c, xs) \<in> set prices. xs = []"
  shows "\<exists>prices'. price_loop 0 0 countries prices r = Inr (prices', r)
           \<and> (\<forall>(c, xs) \<in> set prices'. xs = [])"
  using assms
proof (induction countries arbitrary: prices)
  case Nil
  then show ?case by simp
next
  case (Cons c cs)
  have inv: "\<forall>(a, xs) \<in> set (AList.update c [] prices). xs = []"
    using Cons.prems by (intro update_preserves) simp_all
  from Cons.IH [OF inv] show ?case
    by (simp add: np_tile_def linspace_def normal_def randn_def arange_def skip_gauss_0)
qed

lemma electricity_no_days:
  "\<exists>prices cov r'.
     generate_electricity_like_data 0 countries r = Inr ((prices, cov), r')
     \<and> (\<forall>(c, xs) \<in> set prices. xs = [])
     \<and> (\<forall>(name, m) \<in> set (dynamic_numerical_covariates cov). \<forall>(sid, xs) \<in> set m.
           length xs = 24)
     \<and> (\<forall>(name, m) \<in> set (dynamic_categorical_covariates cov). \<forall>(sid, xs) \<in> set m.
           length xs = 24)"
proof -
  define cs where "cs = (case countries of None \<Rightarrow> [''FR'', ''BE''] | Some cs \<Rightarrow> cs)"
  obtain prices where
    prices: "price_loop 0 0 cs [] r = Inr (prices, r)" and empty: "\<forall>(c, xs) \<in> set prices. xs = []"
    using price_loop_no_days [of "[]" cs r] by auto
  obtain cov r2 where
    cov: "generate_covariates 0 cs True 24 r = Inr (cov, r2)"
    and num: "\<forall>(name, m) \<in> set (dynamic_numerical_covariates cov). \<forall>(sid, xs) \<in> set m.
           length xs = nat 24"
    and cat: "\<forall>(name, m) \<in> set (dynamic_categorical_covariates cov). \<forall>(sid, xs) \<in> set m.
           length xs = nat 24"
    using covariates_dynamic_lengths [of 0 cs True 24 r] by auto
  obtain gen r3 where
    gen: "forecast_dict 24 cs [] r2 = Inr (gen, r3)"
    and gen_len: "\<forall>(sid, xs) \<in> set gen. length xs = nat 24"
    using forecast_dict_ok [of "[]" 24 cs r2] by auto
  have num': "\<forall>(name, m) \<in> set (AList.update ''gen_forecast'' gen (dynamic_numerical_covariates cov)).
                \<forall>(sid, xs) \<in> set m. length xs = nat 24"
    using gen_len num by (intro update_preserves) simp_all
  have "generate_electricity_like_data 0 countries r
          = Inr ((prices, cov\<lparr>dynamic_numerical_covariates :=
                                   AList.update ''gen_forecast'' gen
                                     (dynamic_numerical_covariates cov)\<rparr>), r3)"
    by (simp add: generate_electricity_like_data_def cs_def [symmetric] prices cov gen)
  with empty num' cat show ?thesis
    by (intro exI [of _ prices] exI [of _ r3]
          exI [of _ "cov\<lparr>dynamic_numerical_covariates :=
                          AList.update ''gen_forecast'' gen (dynamic_numerical_covariates cov)\<rparr>"])
       simp
qed

text \<open>
  Claim C1, as stated: it fails for \<open>generate_ad_payload_data\<close> with injected
  anomalies, which raises \<open>ValueError\<close> at the point count 0 (one anomaly position is
  asked of the empty range), and for \<open>generate_covariates\<close>, whose dynamic sequences
  cover the forecast horizon and are not empty at the point count 0.
\<close>

theorem payload_zero_points_counterexample:
  "generate_ad_payload_data
      \<lparr>year = 2026, month = 11, day = 3, hour = 9, minute = 30, second = 0, microsecond = 0\<rparr>
      0 1500000 True (5/100) \<lparr>gauss = (\<lambda>k. 0), pick = (\<lambda>k. 0)\<rparr> = Inl ValueError
   \<and> map_sum id (\<lambda>res. dynamic_categorical_covariates (fst res))
        (generate_covariates 0 [''FR''] True 7 \<lparr>gauss = (\<lambda>k. 0), pick = (\<lambda>k. 0)\<rparr>)
       = Inr [(''day_of_week'', [(''FR'', [''Mon'', ''Tue'', ''Wed'', ''Thu'', ''Fri'', ''Sat'', ''Sun''])])]"
proof -
  have start: "datetime_add
      \<lparr>year = 2026, month = 11, day = 3, hour = 9, minute = 30, second = 0, microsecond = 0\<rparr>
      (- timedelta 30 0)
      = Inr \<lparr>year = 2026, month = 10, day = 4, hour = 9, minute = 30, second = 0, microsecond = 0\<rparr>"
    by (simp add: datetime_add_def timedelta_def us_per_day_def ymd2ord_def ord2ymd_def
        days_before_year_def days_before_month_def is_leap_def Let_def)
  have payload: "generate_ad_payload_data
      \<lparr>year = 2026, month = 11, day = 3, hour = 9, minute = 30, second = 0, microsecond = 0\<rparr>
      0 1500000 True (5/100) \<lparr>gauss = (\<lambda>k. 0), pick = (\<lambda>k. 0)\<rparr> = Inl ValueError"
    by (simp add: generate_ad_payload_data_def generate_timestamps_def start arange_def
        choice_def py_range_def py_int_def float_of_int_0 round_to_double_zero)
  have points: "arange 7 = [0, 1, 2, 3, 4, 5, 6]"
    unfolding arange_def by code_simp
  obtain temperature r' where
    "temperature_dict 7 [''FR''] [] \<lparr>gauss = (\<lambda>k. 0), pick = (\<lambda>k. 0)\<rparr> = Inr (temperature, r')"
    using temperature_dict_ok [of "[]" 7 "[''FR'']" "\<lparr>gauss = (\<lambda>k. 0), pick = (\<lambda>k. 0)\<rparr>"]
    by auto
  then have "map_sum id (\<lambda>res. dynamic_categorical_covariates (fst res))
        (generate_covariates 0 [''FR''] True 7 \<lparr>gauss = (\<lambda>k. 0), pick = (\<lambda>k. 0)\<rparr>)
       = Inr [(''day_of_week'', [(''FR'', [''Mon'', ''Tue'', ''Wed'', ''Thu'', ''Fri'', ''Sat'', ''Sun''])])]"
    by (simp add: generate_covariates_def points days_def)
  with payload show ?thesis by simp
qed

text \<open>
  Claim C1, amended. At the point count 0, with a noise scale whose sign bit is clear,
  the trend, seasonal and trend-and-seasonal generators return the empty list and
  \<open>generate_anomaly_series\<close> with supplied indices returns empty values and flags;
  \<open>generate_multivariate_series\<close> returns \<open>n_series\<close> empty series;
  \<open>generate_timestamps\<close> returns the empty list; \<open>generate_ad_payload_data\<close> without
  injected anomalies returns the empty list (for \<open>base_value \<ge> 0\<close> and a clock at
  least thirty days into the calendar); \<open>generate_covariates\<close> returns dynamic
  sequences of \<open>horizon_len\<close> entries with the horizon and empty ones without;
  \<open>generate_electricity_like_data\<close> for zero days, hence zero points, returns an empty
  price series per country and covariates over its horizon of 24 points. None of
  these calls raises.
\<close>

theorem zero_points_give_empty_series:
  "(\<not> product_signbit base_value noise_level \<longrightarrow>
      returned (generate_trend_series 0 trend_type base_value trend_strength noise_level r) = Inr []
      \<and> returned (generate_seasonal_series 0 base_value seasonality amplitude noise_level r) = Inr []
      \<and> returned (generate_trend_seasonal_series 0 base_value trend_strength seasonal_period
                     amplitude noise_level r) = Inr []
      \<and> returned (generate_anomaly_series 0 base_value (Some anomaly_indices) anomaly_magnitude
                     anomaly_direction noise_level r) = Inr ([], []))
   \<and> returned (generate_multivariate_series n_series 0 base_values correlation noise_level r)
       = Inr (map (\<lambda>i. (series_name i, [])) [0..<nat n_series])
   \<and> generate_timestamps now 0 (Some start_date) freq = Inr []
   \<and> (0 \<le> base_value \<and> datetime_add now (- timedelta 30 0) = Inr start \<longrightarrow>
        generate_timestamps now 0 None freq = Inr []
        \<and> returned (generate_ad_payload_data now 0 base_value False anomaly_ratio r) = Inr [])
   \<and> (\<exists>cov r'. generate_covariates 0 series_ids include_horizon horizon_len r = Inr (cov, r')
        \<and> (\<forall>(name, m) \<in> set (dynamic_numerical_covariates cov). \<forall>(sid, xs) \<in> set m.
              length xs = (if include_horizon then nat horizon_len else 0))
        \<and> (\<forall>(name, m) \<in> set (dynamic_categorical_covariates cov). \<forall>(sid, xs) \<in> set m.
              length xs = (if include_horizon then nat horizon_len else 0)))
   \<and> (\<exists>prices cov r'.
         generate_electricity_like_data 0 countries r = Inr ((prices, cov), r')
         \<and> (\<forall>(c, xs) \<in> set prices. xs = [])
         \<and> (\<forall>(name, m) \<in> set (dynamic_numerical_covariates cov). \<forall>(sid, xs) \<in> set m.
               length xs = 24)
         \<and> (\<forall>(name, m) \<in> set (dynamic_categorical_covariates cov). \<forall>(sid, xs) \<in> set m.
               length xs = 24))"
proof (intro conjI impI)
  assume scale: "\<not> product_signbit base_value noise_level"
  then have noise: "noise_array base_value noise_level 0 r = Inr ([], skip_gauss 0 r)"
    by (simp add: noise_array_ok)
  show "returned (generate_trend_series 0 trend_type base_value trend_strength noise_level r) = Inr []"
    by (simp add: returned_def generate_trend_series_def trend_curve_def np_full_def arange_def
        noise add_arrays_def)
  show "returned (generate_seasonal_series 0 base_value seasonality amplitude noise_level r) = Inr []"
    by (simp add: returned_def generate_seasonal_series_def arange_def noise)
  show "returned (generate_trend_seasonal_series 0 base_value trend_strength seasonal_period
                     amplitude noise_level r) = Inr []"
    by (simp add: returned_def generate_trend_seasonal_series_def arange_def noise)
  obtain vals flags r' where
    "generate_anomaly_series 0 base_value (Some anomaly_indices) anomaly_magnitude
       anomaly_direction noise_level r = Inr ((vals, flags), r')"
    and "length vals = nat 0" and "length flags = nat 0"
    using anomaly_series_given [OF order_refl scale] by blast
  then show "returned (generate_anomaly_series 0 base_value (Some anomaly_indices) anomaly_magnitude
                     anomaly_direction noise_level r) = Inr ([], [])"
    by (simp add: returned_def)
next
  show "returned (generate_multivariate_series n_series 0 base_values correlation noise_level r)
       = Inr (map (\<lambda>i. (series_name i, [])) [0..<nat n_series])"
    by (simp add: returned_def multivariate_closed_form)
next
  show "generate_timestamps now 0 (Some start_date) freq = Inr []"
    by (simp add: generate_timestamps_def arange_def)
next
  assume "0 \<le> base_value \<and> datetime_add now (- timedelta 30 0) = Inr start"
  then have base: "0 \<le> base_value" and start: "datetime_add now (- timedelta 30 0) = Inr start"
    by simp_all
  from start show ts: "generate_timestamps now 0 None freq = Inr []"
    by (simp add: generate_timestamps_def arange_def)
  have "generate_timestamps now 0 None ''H'' = Inr []"
    using start by (simp add: generate_timestamps_def arange_def)
  from ad_payload_plain [OF order_refl base this] obtain ps r' where
    "generate_ad_payload_data now 0 base_value False anomaly_ratio r = Inr (ps, r')"
    and "length ps = nat 0"
    by blast
  then show "returned (generate_ad_payload_data now 0 base_value False anomaly_ratio r) = Inr []"
    by (simp add: returned_def)
next
  from covariates_dynamic_lengths [of 0 series_ids include_horizon horizon_len r]
  show "\<exists>cov r'. generate_covariates 0 series_ids include_horizon horizon_len r = Inr (cov, r')
        \<and> (\<forall>(name, m) \<in> set (dynamic_numerical_covariates cov). \<forall>(sid, xs) \<in> set m.
              length xs = (if include_horizon then nat horizon_len else 0))
        \<and> (\<forall>(name, m) \<in> set (dynamic_categorical_covariates cov). \<forall>(sid, xs) \<in> set m.
              length xs = (if include_horizon then nat horizon_len else 0))"
    by (cases include_horizon) simp_all
next
  show "\<exists>prices cov r'.
         generate_electricity_like_data 0 countries r = Inr ((prices, cov), r')
         \<and> (\<forall>(c, xs) \<in> set prices. xs = [])
         \<and> (\<forall>(name, m) \<in> set (dynamic_numerical_covariates cov). \<forall>(sid, xs) \<in> set m.
               length xs = 24)
         \<and> (\<forall>(name, m) \<in> set (dynamic_categorical_covariates cov). \<forall>(sid, xs) \<in> set m.
               length xs = 24)"
    by (rule electricity_no_days)
qed

theorem zero_points_give_empty_series_witness:
  "\<not> product_signbit 100 (1/10) \<and> (0::real) \<le> 100
   \<and> datetime_add
         \<lparr>year = 2026, month = 11, day = 3, hour = 9, minute = 30, second = 0, microsecond = 0\<rparr>
         (- timedelta 30 0)
       = Inr \<lparr>year = 2026, month = 10, day = 4, hour = 9, minute = 30, second = 0, microsecond = 0\<rparr>
   \<and> returned (generate_trend_series 0 ''linear'' 100 1 (1/10) \<lparr>gauss = (\<lambda>k. 1), pick = (\<lambda>k. 0)\<rparr>)
       = Inr []
   \<and> returned (generate_anomaly_series 0 100 (Some [0, 3]) (1/2) ''both'' (1/10)
         \<lparr>gauss = (\<lambda>k. 1), pick = (\<lambda>k. 0)\<rparr>) = Inr ([], [])
   \<and> returned (generate_multivariate_series 2 0 None (1/2) (1/10) \<lparr>gauss = (\<lambda>k. 1), pick = (\<lambda>k. 0)\<rparr>)
       = Inr [(''series_0'', []), (''series_1'', [])]
   \<and> returned (generate_ad_payload_data
         \<lparr>year = 2026, month = 11, day = 3, hour = 9, minute = 30, second = 0, microsecond = 0\<rparr>
         0 100 False (5/100) \<lparr>gauss = (\<lambda>k. 1), pick = (\<lambda>k. 0)\<rparr>) = Inr []"
proof -
  have start: "datetime_add
      \<lparr>year = 2026, month = 11, day = 3, hour = 9, minute = 30, second = 0, microsecond = 0\<rparr>
      (- timedelta 30 0)
      = Inr \<lparr>year = 2026, month = 10, day = 4, hour = 9, minute = 30, second = 0, microsecond = 0\<rparr>"
    by (simp add: datetime_add_def timedelta_def us_per_day_def ymd2ord_def ord2ymd_def
        days_before_year_def days_before_month_def is_leap_def Let_def)
  have names: "map (\<lambda>i. (series_name i, [])) [0..<nat 2] = [(''series_0'', []), (''series_1'', [])]"
    by (simp add: numeral_2_eq_2 series_name_def str_nat_digit digit_char_def)
  note facts = zero_points_give_empty_series
      [where base_value = 100 and noise_level = "1/10" and trend_type = "''linear''"
         and trend_strength = 1 and r = "\<lparr>gauss = (\<lambda>k. 1), pick = (\<lambda>k. 0)\<rparr>"
         and anomaly_indices = "[0, 3]" and anomaly_magnitude = "1/2"
         and anomaly_direction = "''both''" and n_series = 2 and base_values = None
         and correlation = "1/2" and anomaly_ratio = "5/100"
         and now = "\<lparr>year = 2026, month = 11, day = 3, hour = 9, minute = 30, second = 0,
                      microsecond = 0\<rparr>"
         and start = "\<lparr>year = 2026, month = 10, day = 4, hour = 9, minute = 30, second = 0,
                        microsecond = 0\<rparr>"]
  from facts start names show ?thesis by (simp add: product_signbit_def)
qed

end
